theory Spec2Isabelle
  imports Main "HOL-Library.List_Lexorder" "HOL-Library.Char_ord"
begin

section \<open>Python values, dictionaries and exceptions\<close>

text \<open>
  The orchestration context is a Python \<open>Dict[str, Any]\<close>. Its values are modelled by
  \<open>pyval\<close>: the JSON-compatible values, plus \<open>PObj s\<close> for an opaque object that
  \<open>json\<close> cannot serialise (a \<open>datetime\<close>, a \<open>Path\<close>), carrying the text \<open>s\<close> that
  \<open>str()\<close> gives for it. Floats are left out. A dictionary is an association list with
  distinct keys in insertion order, as a Python \<open>dict\<close> is.
\<close>

datatype pyval =
    PNone
  | PBool bool
  | PInt int
  | PStr string
  | PList "pyval list"
  | PDict "(string \<times> pyval) list"
  | PObj string

type_synonym pydict = "(string \<times> pyval) list"

text \<open>Exceptions. The interpreter's message of a built-in \<open>TypeError\<close> or
  \<open>AttributeError\<close> is not reproduced: the string names the operation that failed.\<close>

datatype exn =
    KeyError string
  | TypeError string
  | AttributeError string
  | ValueError string
  | ActorFailure string

text \<open>\<open>str(e)\<close>: a \<open>KeyError\<close> prints the repr of its key, in single quotes.\<close>

fun exn_str :: "exn \<Rightarrow> string" where
  "exn_str (KeyError k) = [CHR 0x27] @ k @ [CHR 0x27]"
| "exn_str (TypeError s) = s"
| "exn_str (AttributeError s) = s"
| "exn_str (ValueError s) = s"
| "exn_str (ActorFailure s) = s"

text \<open>Truth value testing (\<open>if v:\<close>, \<open>not v\<close>, \<open>a and b\<close>).\<close>

fun truthy :: "pyval \<Rightarrow> bool" where
  "truthy PNone = False"
| "truthy (PBool b) = b"
| "truthy (PInt i) = (i \<noteq> 0)"
| "truthy (PStr s) = (s \<noteq> [])"
| "truthy (PList xs) = (xs \<noteq> [])"
| "truthy (PDict d) = (d \<noteq> [])"
| "truthy (PObj s) = True"

text \<open>\<open>a == b\<close> on values: \<open>bool\<close> is a subtype of \<open>int\<close>, dictionaries compare without
  regard to order. Two opaque objects are compared by their text.\<close>

fun py_eq :: "pyval \<Rightarrow> pyval \<Rightarrow> bool" where
  "py_eq PNone PNone = True"
| "py_eq (PBool a) (PBool b) = (a = b)"
| "py_eq (PBool a) (PInt i) = (i = (if a then 1 else 0))"
| "py_eq (PInt i) (PBool a) = (i = (if a then 1 else 0))"
| "py_eq (PInt i) (PInt j) = (i = j)"
| "py_eq (PStr s) (PStr t) = (s = t)"
| "py_eq (PList xs) (PList ys) = list_all2 py_eq xs ys"
| "py_eq (PDict a) (PDict b) =
     (length a = length b \<and>
      list_all (\<lambda>(k, v). list_ex (\<lambda>(k', w). k' = k \<and> py_eq v w) b) a)"
| "py_eq (PObj s) (PObj t) = (s = t)"
| "py_eq _ _ = False"

text \<open>\<open>d.get(k)\<close>, \<open>d.get(k, default)\<close>, \<open>d[k] = v\<close>, \<open>d.setdefault(k, v)\<close> (the
  dictionary after the call) and \<open>d.update(e)\<close>.\<close>

definition dict_get :: "pydict \<Rightarrow> string \<Rightarrow> pyval" where
  "dict_get d k = (case map_of d k of None \<Rightarrow> PNone | Some v \<Rightarrow> v)"

definition dict_get_default :: "pydict \<Rightarrow> string \<Rightarrow> pyval \<Rightarrow> pyval" where
  "dict_get_default d k dflt = (case map_of d k of None \<Rightarrow> dflt | Some v \<Rightarrow> v)"

fun dict_set :: "pydict \<Rightarrow> string \<Rightarrow> pyval \<Rightarrow> pydict" where
  "dict_set [] k v = [(k, v)]"
| "dict_set ((k', v') # d) k v =
     (if k' = k then (k, v) # d else (k', v') # dict_set d k v)"

definition dict_setdefault :: "pydict \<Rightarrow> string \<Rightarrow> pyval \<Rightarrow> pydict" where
  "dict_setdefault d k v = (case map_of d k of None \<Rightarrow> dict_set d k v | Some _ \<Rightarrow> d)"

definition dict_update :: "pydict \<Rightarrow> pydict \<Rightarrow> pydict" where
  "dict_update d e = foldl (\<lambda>acc (k, v). dict_set acc k v) d e"

text \<open>\<open>a + b\<close>: defined on two lists, two strings or two integers (booleans count as
  integers); any other pair raises \<open>TypeError\<close>.\<close>

fun py_add :: "pyval \<Rightarrow> pyval \<Rightarrow> exn + pyval" where
  "py_add (PList xs) (PList ys) = Inr (PList (xs @ ys))"
| "py_add (PStr s) (PStr t) = Inr (PStr (s @ t))"
| "py_add (PInt i) (PInt j) = Inr (PInt (i + j))"
| "py_add (PInt i) (PBool b) = Inr (PInt (i + (if b then 1 else 0)))"
| "py_add (PBool a) (PInt j) = Inr (PInt ((if a then 1 else 0) + j))"
| "py_add (PBool a) (PBool b) = Inr (PInt ((if a then 1 else 0) + (if b then 1 else 0)))"
| "py_add _ _ = Inl (TypeError ''unsupported operand type(s) for +'')"

text \<open>\<open>xs[-n:]\<close>: for positive \<open>n\<close> the last \<open>n\<close> elements (all of them when the list is
  shorter); \<open>-0\<close> is \<open>0\<close>, so \<open>xs[-0:]\<close> is the whole list; for negative \<open>n\<close> the slice
  starts at index \<open>-n\<close>.\<close>

definition slice_from_neg :: "'a list \<Rightarrow> int \<Rightarrow> 'a list" where
  "slice_from_neg xs n =
     (if 0 < n then drop (length xs - nat n) xs else drop (nat (- n)) xs)"

section \<open>The termination policy (managers.py)\<close>

text \<open>An entry of the task ledger. Agent names are strings (or absent); the other two
  fields are arbitrary values, absent when the key is.\<close>

record ledger_entry =
  agent_name :: "string option"
  result_summary :: "pyval option"
  entry_metadata :: "pyval option"

text \<open>The comparable state that \<open>_extract_ledger_state\<close> builds: a dictionary with the
  three keys \<open>agent_name\<close>, \<open>result_summary\<close>, \<open>metadata\<close>.\<close>

type_synonym ledger_state = "string option \<times> pyval \<times> pyval"

definition extract_ledger_state :: "ledger_entry \<Rightarrow> ledger_state" where
  "extract_ledger_state ledger_entry =
     (agent_name ledger_entry,
      (case result_summary ledger_entry of None \<Rightarrow> PNone | Some v \<Rightarrow> v),
      (case entry_metadata ledger_entry of None \<Rightarrow> PDict [] | Some v \<Rightarrow> v))"

fun ledger_state_eq :: "ledger_state \<Rightarrow> ledger_state \<Rightarrow> bool" where
  "ledger_state_eq (a, r, md) (a', r', md') = (a = a' \<and> py_eq r r' \<and> py_eq md md')"

record manager =
  max_rounds :: int
  stall_threshold :: int
  enable_human_in_loop :: bool
  round_counter :: int
  last_ledger_state :: "ledger_state option"

definition new_manager :: "int \<Rightarrow> int \<Rightarrow> bool \<Rightarrow> manager" where
  "new_manager mr st hil =
     \<lparr> max_rounds = mr, stall_threshold = st, enable_human_in_loop = hil,
       round_counter = 0, last_ledger_state = None \<rparr>"

definition reset :: "manager \<Rightarrow> manager" where
  "reset m = m\<lparr> round_counter := 0, last_ledger_state := None \<rparr>"

definition record_round :: "manager \<Rightarrow> manager" where
  "record_round m = m\<lparr> round_counter := round_counter m + 1 \<rparr>"

definition rounds_exhausted :: "manager \<Rightarrow> bool" where
  "rounds_exhausted m = (max_rounds m \<le> round_counter m)"

definition set_reason :: "pydict \<Rightarrow> string \<Rightarrow> pydict" where
  "set_reason context reason = dict_set context ''termination_reason'' (PStr reason)"

definition signal_if :: "pydict \<Rightarrow> string \<Rightarrow> bool \<Rightarrow> bool \<times> pydict" where
  "signal_if context reason condition =
     (if \<not> condition then (False, context) else (True, set_reason context reason))"

definition is_ready_for_handoff :: "pydict \<Rightarrow> bool" where
  "is_ready_for_handoff context =
     (py_eq (dict_get context ''agent_decision'') (PStr ''approve'')
      \<and> py_eq (dict_get context ''handoff_status'') (PStr ''ready_for_settlement''))"

definition is_manual_denial :: "pydict \<Rightarrow> bool" where
  "is_manual_denial context =
     (py_eq (dict_get context ''agent_decision'') (PStr ''deny'')
      \<and> dict_get context ''denial_package_ready'' = PBool True)"

text \<open>\<open>_is_stalled\<close> returns its verdict and the manager, whose \<open>_last_ledger_state\<close> it
  overwrites on the path that returns \<open>False\<close> at the end.\<close>

definition is_stalled :: "manager \<Rightarrow> ledger_entry list \<Rightarrow> bool \<times> manager" where
  "is_stalled m task_ledger =
     (if task_ledger = [] \<or> int (length task_ledger) < stall_threshold m then (False, m)
      else
        let recent_agents = map agent_name (slice_from_neg task_ledger (stall_threshold m))
        in if length (remdups recent_agents) = 1 then (True, m)
           else
             let current_state = extract_ledger_state (last task_ledger)
             in if (case last_ledger_state m of
                      None \<Rightarrow> False
                    | Some s \<Rightarrow> ledger_state_eq current_state s)
                then (True, m)
                else (False, m\<lparr> last_ledger_state := Some current_state \<rparr>))"

text \<open>The sixth condition of \<open>should_terminate\<close>, as the source writes it.\<close>

definition human_in_loop_required :: "manager \<Rightarrow> pydict \<Rightarrow> bool" where
  "human_in_loop_required m context =
     (enable_human_in_loop m
      \<and> (truthy (dict_get context ''missing_documents'')
         \<or> truthy (dict_get context ''missing_information''))
      \<and> \<not> truthy (dict_get context ''agent_reviewed''))"

text \<open>\<open>should_terminate\<close> returns its verdict, the context (whose \<open>termination_reason\<close>
  and \<open>agent_decision\<close> it may write) and the manager. The only statement that can raise
  is the concatenation of the two missing-item lists in the last branch, after the reason
  has been set: the context and the manager are returned in that case too, as the caller's
  objects have been mutated by then.\<close>

definition should_terminate ::
    "manager \<Rightarrow> pydict \<Rightarrow> ledger_entry list option \<Rightarrow> (exn + bool) \<times> pydict \<times> manager" where
  "should_terminate m context task_ledger =
     (case signal_if context ''approved_handoff_ready'' (is_ready_for_handoff context) of
        (True, c1) \<Rightarrow> (Inr True, c1, m)
      | (False, c1) \<Rightarrow>
     (case signal_if c1 ''denied_manual'' (is_manual_denial c1) of
        (True, c2) \<Rightarrow> (Inr True, c2, m)
      | (False, c2) \<Rightarrow>
     (case signal_if c2 ''denied_sla_breach'' (truthy (dict_get c2 ''sla_breached'')) of
        (True, c3) \<Rightarrow> (Inr True, dict_setdefault c3 ''agent_decision'' (PStr ''deny''), m)
      | (False, c3) \<Rightarrow>
     (case (case task_ledger of
              None \<Rightarrow> ((False, c3), m)
            | Some l \<Rightarrow>
                if l = [] then ((False, c3), m)
                else (let (stalled, m1) = is_stalled m l
                      in (signal_if c3 ''stalled'' stalled, m1))) of
        ((True, c4), m1) \<Rightarrow> (Inr True, c4, m1)
      | ((False, c4), m1) \<Rightarrow>
     (case signal_if c4 ''max_rounds_exceeded'' (rounds_exhausted m1) of
        (True, c5) \<Rightarrow> (Inr True, c5, m1)
      | (False, c5) \<Rightarrow>
        if human_in_loop_required m1 c5 then
          (let c6 = set_reason c5 ''human_in_loop_required''
           in case py_add (dict_get_default c6 ''missing_documents'' (PList []))
                          (dict_get_default c6 ''missing_information'' (PList [])) of
                Inl e \<Rightarrow> (Inl e, c6, m1)
              | Inr missing_items \<Rightarrow> (Inr True, c6, m1))
        else (Inr False, c5, m1))))))"

text \<open>The six conditions in the order of the docstring, each paired with the reason it
  records. The fourth holds when a non-empty ledger is supplied and \<open>_is_stalled\<close>
  answers \<open>True\<close> on it.\<close>

definition ledger_stalled :: "manager \<Rightarrow> ledger_entry list option \<Rightarrow> bool" where
  "ledger_stalled m task_ledger =
     (case task_ledger of None \<Rightarrow> False | Some l \<Rightarrow> l \<noteq> [] \<and> fst (is_stalled m l))"

definition termination_conditions ::
    "manager \<Rightarrow> pydict \<Rightarrow> ledger_entry list option \<Rightarrow> (string \<times> bool) list" where
  "termination_conditions m context task_ledger =
     [(''approved_handoff_ready'', is_ready_for_handoff context),
      (''denied_manual'', is_manual_denial context),
      (''denied_sla_breach'', truthy (dict_get context ''sla_breached'')),
      (''stalled'', ledger_stalled m task_ledger),
      (''max_rounds_exceeded'', rounds_exhausted m),
      (''human_in_loop_required'', human_in_loop_required m context)]"

section \<open>The session store (session_store.py)\<close>

text \<open>Modelled from the spec: the roles of a message. \<open>AuthorRole\<close> is declared by the
  Semantic Kernel library, outside the repository; the spec's data model gives the four
  roles \<open>system | user | assistant | tool\<close>, which are also the four keys of
  \<open>role_map\<close> in \<open>_deserialize_message\<close>.\<close>

datatype AuthorRole = USER | ASSISTANT | SYSTEM | TOOL

fun role_value :: "AuthorRole \<Rightarrow> string" where
  "role_value USER = ''user''"
| "role_value ASSISTANT = ''assistant''"
| "role_value SYSTEM = ''system''"
| "role_value TOOL = ''tool''"

text \<open>A \<open>ChatMessageContent\<close>, with the four attributes the store reads and writes.\<close>

record message =
  msg_role :: AuthorRole
  msg_content :: string
  msg_name :: "string option"
  msg_metadata :: pydict

text \<open>What \<open>json.dump(v, default=str)\<close> followed by \<open>json.load\<close> gives back: the value
  itself, with every object that \<open>json\<close> cannot serialise replaced by its \<open>str()\<close>. The
  text of the file in between is the \<open>json\<close> library's and is not modelled: a file holds
  the value that parsing it returns.\<close>

primrec json_coerce :: "pyval \<Rightarrow> pyval" where
  "json_coerce PNone = PNone"
| "json_coerce (PBool b) = PBool b"
| "json_coerce (PInt i) = PInt i"
| "json_coerce (PStr s) = PStr s"
| "json_coerce (PList xs) = PList (map json_coerce xs)"
| "json_coerce (PDict d) = PDict (map (map_prod id json_coerce) d)"
| "json_coerce (PObj s) = PStr s"

definition json_coerce_dict :: "pydict \<Rightarrow> pydict" where
  "json_coerce_dict d = map (map_prod id json_coerce) d"

text \<open>\<open>str.lower()\<close> on the ASCII letters; other bytes are left as they are.\<close>

definition ascii_lower :: "char \<Rightarrow> char" where
  "ascii_lower c =
     (if (65::nat) \<le> of_char c \<and> of_char c \<le> (90::nat)
      then char_of (of_char c + (32::nat)) else c)"

definition serialize_message :: "message \<Rightarrow> pydict" where
  "serialize_message message =
     [(''role'', PStr (role_value (msg_role message))),
      (''content'', PStr (if msg_content message \<noteq> [] then msg_content message else [])),
      (''name'', (case msg_name message of None \<Rightarrow> PNone | Some n \<Rightarrow> PStr n)),
      (''metadata'', PDict (msg_metadata message))]"

text \<open>\<open>_deserialize_message\<close>. Calling \<open>.lower()\<close> on a role that is not a string raises
  \<open>AttributeError\<close>; the constructor of \<open>ChatMessageContent\<close> validates its arguments and
  rejects (with a \<open>ValueError\<close>) a content or name that is neither a string nor null and a
  metadata that is not a dictionary.\<close>

definition role_map :: "string \<Rightarrow> AuthorRole option" where
  "role_map = map_of [(''user'', USER), (''assistant'', ASSISTANT),
                      (''system'', SYSTEM), (''tool'', TOOL)]"

definition deserialize_message :: "pydict \<Rightarrow> exn + message" where
  "deserialize_message message_dict =
     (case dict_get_default message_dict ''role'' (PStr ''user'') of
        PStr r \<Rightarrow>
          (let role_str = map ascii_lower r;
               role = (case role_map role_str of None \<Rightarrow> USER | Some ro \<Rightarrow> ro)
           in case dict_get_default message_dict ''content'' (PStr []) of
                PObj x \<Rightarrow> Inl (ValueError ''content'')
              | PBool x \<Rightarrow> Inl (ValueError ''content'')
              | PInt x \<Rightarrow> Inl (ValueError ''content'')
              | PList x \<Rightarrow> Inl (ValueError ''content'')
              | PDict x \<Rightarrow> Inl (ValueError ''content'')
              | cv \<Rightarrow>
             (case dict_get message_dict ''name'' of
                PObj x \<Rightarrow> Inl (ValueError ''name'')
              | PBool x \<Rightarrow> Inl (ValueError ''name'')
              | PInt x \<Rightarrow> Inl (ValueError ''name'')
              | PList x \<Rightarrow> Inl (ValueError ''name'')
              | PDict x \<Rightarrow> Inl (ValueError ''name'')
              | nv \<Rightarrow>
             (case dict_get_default message_dict ''metadata'' (PDict []) of
                PDict md \<Rightarrow>
                  Inr \<lparr> msg_role = role,
                        msg_content = (case cv of PStr s \<Rightarrow> s | _ \<Rightarrow> []),
                        msg_name = (case nv of PStr n \<Rightarrow> Some n | _ \<Rightarrow> None),
                        msg_metadata = md \<rparr>
              | _ \<Rightarrow> Inl (ValueError ''metadata''))))
      | _ \<Rightarrow> Inl (AttributeError ''lower''))"

text \<open>The three files of a session directory, each absent or holding the JSON document
  it was last written with: \<open>context.json\<close>, \<open>history.jsonl\<close> (one object per line) and
  \<open>session.json\<close>.\<close>

record session_files =
  context_json :: "pydict option"
  history_jsonl :: "pydict list option"
  session_json :: "pydict option"

text \<open>What an agent's \<open>invoke\<close> stream amounts to: it raises, or it ends with a last
  message (or with none).\<close>

datatype agent_outcome = Replies "message option" | Raises exn

text \<open>
  The world outside the orchestrator: the session directories under \<open>base_dir\<close>, keyed
  by directory name; the clock, as the text \<open>datetime.utcnow().isoformat()\<close> gives on
  each successive reading; the agents, as the outcome of each successive invocation given
  the role and the chat history; and Python's \<open>str()\<close> of a value, which the f-strings
  of the source apply and which is not reimplemented here. Failures of the operating
  system (a full disk, a directory that cannot be created) are not modelled, and the trace
  file that \<open>_log_agent_input\<close> and \<open>_log_agent_output\<close> append to is left out.
\<close>

record world =
  sessions :: "string \<Rightarrow> session_files option"
  utcnow :: "nat \<Rightarrow> string"
  clock_reads :: nat
  agent_reply :: "nat \<Rightarrow> string \<Rightarrow> message list \<Rightarrow> agent_outcome"
  agent_calls :: nat
  py_str :: "pyval \<Rightarrow> string"

text \<open>\<open>datetime.utcnow().isoformat() + "Z"\<close>.\<close>

definition now_z :: "world \<Rightarrow> string \<times> world" where
  "now_z w = (utcnow w (clock_reads w) @ ''Z'', w\<lparr> clock_reads := clock_reads w + 1 \<rparr>)"

text \<open>\<open>save_session\<close>. \<open>self.base_dir / claim_id\<close> needs a string (or a path); any other
  value raises \<open>TypeError\<close> before anything is written.\<close>

definition save_session ::
    "world \<Rightarrow> pyval \<Rightarrow> message list \<Rightarrow> pydict \<Rightarrow> pydict option \<Rightarrow> exn + world" where
  "save_session w claim_id chat_history context metadata =
     (case claim_id of
        PStr cid \<Rightarrow>
          (let context_file = json_coerce_dict context;
               history_file = map (\<lambda>message. json_coerce_dict (serialize_message message))
                                  chat_history;
               (saved_at, w1) = now_z w;
               session_metadata =
                 [(''claim_id'', claim_id),
                  (''saved_at'', PStr saved_at),
                  (''message_count'', PInt (int (length chat_history))),
                  (''status'', dict_get_default context ''state'' (PStr ''unknown'')),
                  (''missing_documents'', dict_get_default context ''missing_documents'' (PList []))];
               session_metadata1 =
                 (case metadata of
                    None \<Rightarrow> session_metadata
                  | Some md \<Rightarrow> if md \<noteq> [] then dict_update session_metadata md
                              else session_metadata)
           in Inr (w1\<lparr> sessions := (sessions w1)(cid \<mapsto>
                    \<lparr> context_json = Some context_file,
                      history_jsonl = Some history_file,
                      session_json = Some (json_coerce_dict session_metadata1) \<rparr>) \<rparr>))
      | _ \<Rightarrow> Inl (TypeError ''unsupported operand type(s) for /''))"

text \<open>\<open>load_session\<close>: \<open>None\<close> when the directory or \<open>session.json\<close> is missing.\<close>

record loaded_session =
  l_chat_history :: "message list"
  l_context :: pydict
  l_metadata :: pydict

fun deserialize_all :: "pydict list \<Rightarrow> exn + message list" where
  "deserialize_all [] = Inr []"
| "deserialize_all (line # rest) =
     (case deserialize_message line of
        Inl e \<Rightarrow> Inl e
      | Inr message \<Rightarrow>
          (case deserialize_all rest of
             Inl e \<Rightarrow> Inl e
           | Inr messages \<Rightarrow> Inr (message # messages)))"

definition load_session :: "world \<Rightarrow> string \<Rightarrow> exn + loaded_session option" where
  "load_session w claim_id =
     (case sessions w claim_id of
        None \<Rightarrow> Inr None
      | Some files \<Rightarrow>
          (case session_json files of
             None \<Rightarrow> Inr None
           | Some metadata \<Rightarrow>
               (let context = (case context_json files of None \<Rightarrow> [] | Some c \<Rightarrow> c)
                in case deserialize_all
                          (case history_jsonl files of None \<Rightarrow> [] | Some ls \<Rightarrow> ls) of
                     Inl e \<Rightarrow> Inl e
                   | Inr chat_history \<Rightarrow>
                       Inr (Some \<lparr> l_chat_history = chat_history, l_context = context,
                                   l_metadata = metadata \<rparr>))))"

definition session_exists :: "world \<Rightarrow> string \<Rightarrow> bool" where
  "session_exists w claim_id =
     (case sessions w claim_id of
        None \<Rightarrow> False
      | Some files \<Rightarrow> session_json files \<noteq> None)"

text \<open>\<open>archive_session\<close> returns whether it found the directory (the source returns its
  path, or \<open>None\<close>) and the world.\<close>

definition archive_session :: "world \<Rightarrow> string \<Rightarrow> bool \<times> world" where
  "archive_session w claim_id =
     (case sessions w claim_id of
        None \<Rightarrow> (False, w)
      | Some files \<Rightarrow>
          (case session_json files of
             None \<Rightarrow> (True, w)
           | Some metadata \<Rightarrow>
               (let (archived_at, w1) = now_z w;
                    metadata1 = dict_set metadata ''archived_at'' (PStr archived_at)
                in (True, w1\<lparr> sessions := (sessions w1)(claim_id \<mapsto>
                           files\<lparr> session_json := Some (json_coerce_dict metadata1) \<rparr>) \<rparr>))))"

section \<open>The orchestrator (orchestration.py)\<close>

text \<open>Iterating over a value (\<open>for x in v\<close>, \<open>list.extend(v)\<close>) and \<open>len(v)\<close>: lists,
  strings (character by character) and dictionaries (their keys) support both; any other
  value raises \<open>TypeError\<close>.\<close>

fun py_iter :: "pyval \<Rightarrow> exn + pyval list" where
  "py_iter (PList xs) = Inr xs"
| "py_iter (PStr s) = Inr (map (\<lambda>c. PStr [c]) s)"
| "py_iter (PDict d) = Inr (map (\<lambda>kv. PStr (fst kv)) d)"
| "py_iter _ = Inl (TypeError ''object is not iterable'')"

fun py_len :: "pyval \<Rightarrow> exn + nat" where
  "py_len (PList xs) = Inr (length xs)"
| "py_len (PStr s) = Inr (length s)"
| "py_len (PDict d) = Inr (length d)"
| "py_len _ = Inl (TypeError ''object has no len'')"

text \<open>\<open>sep.join(items)\<close>; it raises \<open>TypeError\<close> at an item that is not a string.\<close>

fun join :: "string \<Rightarrow> string list \<Rightarrow> string" where
  "join sep [] = []"
| "join sep [x] = x"
| "join sep (x # y # ys) = x @ sep @ join sep (y # ys)"

fun strs_of :: "pyval list \<Rightarrow> exn + string list" where
  "strs_of [] = Inr []"
| "strs_of (PStr s # vs) =
     (case strs_of vs of Inl e \<Rightarrow> Inl e | Inr ss \<Rightarrow> Inr (s # ss))"
| "strs_of (v # vs) = Inl (TypeError ''expected str instance'')"

text \<open>Whether a value can be hashed (be a member of a set, a key of a dictionary).\<close>

fun hashable :: "pyval \<Rightarrow> bool" where
  "hashable (PList xs) = False"
| "hashable (PDict d) = False"
| "hashable v = True"

text \<open>\<open>SPECIALIST_ROLES\<close> is a set; the order in which Python iterates over it is not
  fixed by the source. The list gives the roles in the order the source writes them.\<close>

definition SPECIALIST_ROLES :: "string list" where
  "SPECIALIST_ROLES = [''policy_specialist'', ''medical_specialist'', ''fraud_analyst'',
                       ''claims_history_analyst'', ''vendor_specialist'']"

text \<open>The orchestrator: the roles that have an agent, the pause switch, the manager, and
  the path of the trace file for a claim id
  (\<open>str(self.debug_log_dir / f"{claim_id}_trace.txt")\<close>, not reimplemented). The session
  store is always present: the constructor creates one when none is passed.\<close>

record orchestrator =
  agents :: "string list"
  o_enable_human_in_loop :: bool
  o_manager :: manager
  trace_path :: "pyval \<Rightarrow> string"

definition new_orchestrator ::
    "string list \<Rightarrow> int \<Rightarrow> int \<Rightarrow> bool \<Rightarrow> (pyval \<Rightarrow> string) \<Rightarrow> orchestrator" where
  "new_orchestrator ags mr st hil tp =
     \<lparr> agents = ags, o_enable_human_in_loop = hil, o_manager = new_manager mr st hil,
       trace_path = tp \<rparr>"

text \<open>What a run of \<open>process_claim\<close> mutates: the context, the chat history, the manager
  and the world. A step returns its value, or the exception it raised, together with the
  state it left behind.\<close>

record run_state =
  ctx :: pydict
  hist :: "message list"
  mgr :: manager
  wld :: world

definition bind_step ::
    "(exn + 'a) \<times> run_state \<Rightarrow> ('a \<Rightarrow> run_state \<Rightarrow> (exn + 'b) \<times> run_state)
       \<Rightarrow> (exn + 'b) \<times> run_state" where
  "bind_step r f = (case r of (Inl e, s) \<Rightarrow> (Inl e, s) | (Inr a, s) \<Rightarrow> f a s)"

definition new_message :: "AuthorRole \<Rightarrow> string \<Rightarrow> message" where
  "new_message r c = \<lparr> msg_role = r, msg_content = c, msg_name = None, msg_metadata = [] \<rparr>"

definition add_message :: "run_state \<Rightarrow> message \<Rightarrow> run_state" where
  "add_message s message = s\<lparr> hist := hist s @ [message] \<rparr>"

text \<open>Invoking a configured agent on the chat history: the last message of its stream,
  if any, is appended to the history.\<close>

definition call_agent :: "string \<Rightarrow> run_state \<Rightarrow> (exn + message option) \<times> run_state" where
  "call_agent role s =
     (let w = wld s;
          outcome = agent_reply w (agent_calls w) role (hist s);
          s1 = s\<lparr> wld := w\<lparr> agent_calls := agent_calls w + 1 \<rparr> \<rparr>
      in case outcome of
           Raises e \<Rightarrow> (Inl e, s1)
         | Replies None \<Rightarrow> (Inr None, s1)
         | Replies (Some response) \<Rightarrow> (Inr (Some response), add_message s1 response))"

definition invoke_agent ::
    "orchestrator \<Rightarrow> string \<Rightarrow> run_state \<Rightarrow> (exn + message option) \<times> run_state" where
  "invoke_agent orch role s =
     (if role \<notin> set (agents orch) then (Inr None, s) else call_agent role s)"

definition bootstrap_context :: "pydict \<Rightarrow> pydict option \<Rightarrow> pydict" where
  "bootstrap_context claim_data existing_context =
     (let base = [(''state'', PStr ''intake''),
                  (''missing_documents'', PList []),
                  (''risk_score'', PInt 0),
                  (''fraud_indicators'', PList []),
                  (''assessment_confidence'', PInt 0),
                  (''agent_decision'', PNone),
                  (''decision_confidence'', PInt 0),
                  (''ack_sent'', PBool False),
                  (''info_request_sent'', PBool False),
                  (''sla_breached'', PBool False),
                  (''agent_reviewed'', PBool False),
                  (''handoff_status'', PStr ''pending''),
                  (''denial_package_ready'', PBool False)];
          base1 = dict_update base claim_data
      in case existing_context of
           None \<Rightarrow> base1
         | Some ec \<Rightarrow> if ec \<noteq> [] then dict_update base1 ec else base1)"

text \<open>\<open>_initialize_debug_log\<close>: \<open>debug_log_dir\<close> is never empty (the constructor gives it
  a default), so the function always reads \<open>context['claim_id']\<close>, which raises
  \<open>KeyError\<close> when the key is missing, and records the path of the trace file.\<close>

definition initialize_debug_log :: "orchestrator \<Rightarrow> pydict \<Rightarrow> exn + pydict" where
  "initialize_debug_log orch context =
     (case map_of context ''claim_id'' of
        None \<Rightarrow> Inl (KeyError ''claim_id'')
      | Some cid \<Rightarrow> Inr (dict_set context ''debug_log_path'' (PStr (trace_path orch cid))))"

text \<open>\<open>context["claim_id"]\<close>, which the phases evaluate for their log lines.\<close>

definition require_claim_id :: "run_state \<Rightarrow> (exn + unit) \<times> run_state" where
  "require_claim_id s =
     (case map_of (ctx s) ''claim_id'' of
        None \<Rightarrow> (Inl (KeyError ''claim_id''), s)
      | Some cid \<Rightarrow> (Inr (), s))"

definition set_ctx :: "run_state \<Rightarrow> string \<Rightarrow> pyval \<Rightarrow> run_state" where
  "set_ctx s k v = s\<lparr> ctx := dict_set (ctx s) k v \<rparr>"

definition phase1_sequential_intake ::
    "orchestrator \<Rightarrow> run_state \<Rightarrow> (exn + unit) \<times> run_state" where
  "phase1_sequential_intake orch s =
     bind_step (require_claim_id s) (\<lambda>u s.
       let s0 = (case map_of (ctx s) ''original_content'' of
                   None \<Rightarrow> s
                 | Some oc \<Rightarrow>
                     add_message s (new_message USER
                       (''New claim submission:'' @ [CHR 0x0A, CHR 0x0A] @ py_str (wld s) oc)))
       in bind_step (invoke_agent orch ''intake_coordinator'' s0) (\<lambda>r1 s1.
            let s1a = (if r1 \<noteq> None then set_ctx s1 ''ack_sent'' (PBool True) else s1)
            in bind_step (invoke_agent orch ''policy_specialist'' s1a) (\<lambda>r2 s2.
                 bind_step (invoke_agent orch ''document_validator'' s2) (\<lambda>r3 s3.
                   let s4 = set_ctx s3 ''state'' (PStr ''validation_complete'')
                   in case py_len (dict_get_default (ctx s4) ''missing_documents'' (PList [])) of
                        Inl e \<Rightarrow> (Inl e, s4)
                      | Inr n \<Rightarrow> (Inr (), s4)))))"

text \<open>One round of Phase 2: every specialist once, in order.\<close>

fun invoke_specialists :: "string list \<Rightarrow> run_state \<Rightarrow> (exn + unit) \<times> run_state" where
  "invoke_specialists [] s = (Inr (), s)"
| "invoke_specialists (role # roles) s =
     (case call_agent role s of
        (Inl e, s1) \<Rightarrow> (Inl e, s1)
      | (Inr response, s1) \<Rightarrow> invoke_specialists roles s1)"

text \<open>\<open>self.manager.should_terminate(context)\<close>: the orchestrator passes no ledger.\<close>

definition terminate_check :: "run_state \<Rightarrow> (exn + bool) \<times> run_state" where
  "terminate_check s =
     (case should_terminate (mgr s) (ctx s) None of
        (r, c, m) \<Rightarrow> (r, s\<lparr> ctx := c, mgr := m \<rparr>))"

text \<open>The loop of Phase 2. Each pass asks the manager first; a pass that goes on
  invokes every specialist, records the round, and stops when pausing is enabled and
  documents are missing. The round counter grows with every pass and the manager stops the
  loop once it reaches \<open>max_rounds\<close>, which is the measure of the termination proof.\<close>

function gathering_loop ::
    "orchestrator \<Rightarrow> string list \<Rightarrow> run_state \<Rightarrow> (exn + unit) \<times> run_state" where
  "gathering_loop orch specialists s =
     (case terminate_check s of
        (Inl e, s1) \<Rightarrow> (Inl e, s1)
      | (Inr True, s1) \<Rightarrow> (Inr (), s1)
      | (Inr False, s1) \<Rightarrow>
          (case invoke_specialists specialists s1 of
             (Inl e, s2) \<Rightarrow> (Inl e, s2)
           | (Inr u, s2) \<Rightarrow>
               (let s3 = s2\<lparr> mgr := record_round (mgr s2) \<rparr>
                in if o_enable_human_in_loop orch
                      \<and> truthy (dict_get (ctx s3) ''missing_documents'')
                   then (Inr (), s3)
                   else gathering_loop orch specialists s3)))"
  by pat_completeness auto
termination
proof (relation "measure (\<lambda>(orch, specialists, s).
                   nat (max_rounds (mgr s) - round_counter (mgr s)))")
  show "wf (measure (\<lambda>(orch, specialists, s).
                   nat (max_rounds (mgr s) - round_counter (mgr s))))"
    by simp
next
  fix orch :: orchestrator and specialists :: "string list" and s x y b xa ya ba xb
  assume tc: "(x, y) = terminate_check s" and x: "x = Inr b" and nb: "b = False"
    and sp: "(xa, ya) = invoke_specialists specialists y"
    and xb: "xb = ya\<lparr>mgr := record_round (mgr ya)\<rparr>"
  have keep: "mgr (snd (invoke_specialists roles t)) = mgr t" for roles t
  proof (induction roles arbitrary: t)
    case Nil
    show ?case by simp
  next
    case (Cons role roles)
    have c: "mgr (snd (call_agent role t)) = mgr t"
      by (simp add: call_agent_def Let_def add_message_def
          split: agent_outcome.splits option.splits)
    show ?case
      using Cons [of "snd (call_agent role t)"] c
      by (cases "call_agent role t") (auto split: sum.splits)
  qed
  from sp have m2: "mgr ya = mgr y"
    using keep [of specialists y] by (metis snd_conv)
  from tc x nb have m1: "mgr y = mgr s \<and> round_counter (mgr s) < max_rounds (mgr s)"
    by (auto simp add: terminate_check_def should_terminate_def signal_if_def
        rounds_exhausted_def Let_def split: prod.splits if_splits sum.splits)
  show "((orch, specialists, xb), (orch, specialists, s)) \<in>
          measure (\<lambda>(orch, specialists, s). nat (max_rounds (mgr s) - round_counter (mgr s)))"
    using m1 m2 xb by (simp add: record_round_def)
qed

declare gathering_loop.simps [simp del]

definition phase2_magentic_gathering ::
    "orchestrator \<Rightarrow> run_state \<Rightarrow> (exn + unit) \<times> run_state" where
  "phase2_magentic_gathering orch s =
     bind_step (require_claim_id s) (\<lambda>u s.
       if truthy (dict_get (ctx s) ''missing_documents'')
          \<or> truthy (dict_get (ctx s) ''missing_information'')
       then
         (case (if truthy (dict_get (ctx s) ''missing_information'')
                then py_iter (dict_get (ctx s) ''missing_information'') else Inr []) of
            Inl e \<Rightarrow> (Inl e, s)
          | Inr items1 \<Rightarrow>
         (case (if truthy (dict_get (ctx s) ''missing_documents'')
                then py_iter (dict_get (ctx s) ''missing_documents'') else Inr []) of
            Inl e \<Rightarrow> (Inl e, s)
          | Inr items2 \<Rightarrow>
         (case strs_of (items1 @ items2) of
            Inl e \<Rightarrow> (Inl e, s)
          | Inr missing_items \<Rightarrow>
              (Inr (),
               set_ctx s ''handoff_payload''
                 (PDict [(''decision'', PStr ''PENDING''),
                         (''notes'', PStr (''Awaiting required information/documents from claimant: ''
                                           @ join '', '' missing_items))])))))
       else
         (let s1 = set_ctx s ''state'' (PStr ''adaptive_gathering'');
              specialists = filter (\<lambda>role. role \<in> set (agents orch)) SPECIALIST_ROLES
          in if specialists = [] then (Inr (), s1)
             else bind_step (gathering_loop orch specialists s1) (\<lambda>u s2.
                    (Inr (), set_ctx s2 ''state'' (PStr ''data_gathering_complete'')))))"

definition phase3_handoff_decision ::
    "orchestrator \<Rightarrow> run_state \<Rightarrow> (exn + unit) \<times> run_state" where
  "phase3_handoff_decision orch s =
     bind_step (require_claim_id s) (\<lambda>u s.
     bind_step (invoke_agent orch ''assessment_agent'' s) (\<lambda>r1 s1.
     bind_step (invoke_agent orch ''claims_officer'' s1) (\<lambda>r2 s2.
     bind_step (invoke_agent orch ''handoff_agent'' s2) (\<lambda>r3 s3.
       (Inr (), if r3 \<noteq> None
                then set_ctx s3 ''handoff_status'' (PStr ''ready_for_settlement'')
                else s3)))))"

text \<open>\<open>_should_pause\<close>. The \<open>and\<close> does not evaluate \<open>len\<close> when pausing is disabled.\<close>

definition should_pause :: "orchestrator \<Rightarrow> pydict \<Rightarrow> exn + bool" where
  "should_pause orch context =
     (if \<not> o_enable_human_in_loop orch then Inr False
      else case py_len (dict_get_default context ''missing_documents'' (PList [])) of
             Inl e \<Rightarrow> Inl e
           | Inr n \<Rightarrow> Inr (0 < n))"

text \<open>The result dictionary; a key that a result does not carry is \<open>None\<close>.\<close>

record result =
  status :: string
  termination_reason :: pyval
  r_context :: pydict
  r_chat_history :: "message list"
  rounds_executed :: "int option"
  handoff_payload :: "pydict option"
  r_missing_documents :: "pyval option"
  resume_instructions :: "string option"
  r_error :: "string option"

definition create_paused_result :: "world \<Rightarrow> pydict \<Rightarrow> message list \<Rightarrow> result" where
  "create_paused_result w context chat_history =
     \<lparr> status = ''paused'',
       termination_reason = PStr ''missing_documents'',
       r_context = context,
       r_chat_history = chat_history,
       rounds_executed = None,
       handoff_payload = None,
       r_missing_documents = Some (dict_get_default context ''missing_documents'' (PList [])),
       resume_instructions =
         Some (''To resume claim '' @ py_str w (dict_get context ''claim_id'')
               @ '', provide the missing documents and call continue_claim() ''
               @ ''with the claim_id and updated documents.''),
       r_error = None \<rparr>"

definition build_settlement_payload :: "pydict \<Rightarrow> pydict" where
  "build_settlement_payload context =
     [(''claim_id'', dict_get context ''claim_id''),
      (''decision'', PStr ''approve''),
      (''payout_amount'', dict_get context ''approved_amount''),
      (''agent_id'', dict_get context ''agent_id''),
      (''decision_timestamp'', dict_get context ''decision_timestamp''),
      (''confidence_score'', dict_get_default context ''decision_confidence'' (PInt 0)),
      (''fraud_risk'', dict_get_default context ''risk_score'' (PInt 0)),
      (''rationale'', dict_get_default context ''decision_rationale'' (PStr [])),
      (''attachments'', dict_get_default context ''evidence_documents'' (PList []))]"

definition build_denial_payload :: "pydict \<Rightarrow> pydict" where
  "build_denial_payload context =
     (let denial_reason =
            (if truthy (dict_get context ''sla_breached'') then PStr ''other''
             else dict_get_default context ''denial_reason'' (PStr ''other''));
          rationale =
            (if truthy (dict_get context ''sla_breached'')
             then PStr ''Claim denied due to SLA breach (timeout)''
             else dict_get_default context ''decision_rationale'' (PStr []))
      in [(''claim_id'', dict_get context ''claim_id''),
          (''decision'', PStr ''deny''),
          (''agent_id'', dict_get context ''agent_id''),
          (''decision_timestamp'', dict_get context ''decision_timestamp''),
          (''confidence_score'', dict_get_default context ''decision_confidence'' (PInt 0)),
          (''fraud_risk'', dict_get_default context ''risk_score'' (PInt 0)),
          (''rationale'', rationale),
          (''attachments'', dict_get_default context ''evidence_documents'' (PList [])),
          (''denial_reason'', denial_reason)])"

definition status_map :: "string \<Rightarrow> string option" where
  "status_map = map_of [(''approved_handoff_ready'', ''approved''),
                        (''denied_manual'', ''denied''),
                        (''denied_sla_breach'', ''denied''),
                        (''stalled'', ''stalled''),
                        (''max_rounds_exceeded'', ''timeout''),
                        (''human_in_loop_required'', ''paused'')]"

text \<open>\<open>gather_final_result\<close>. Looking the reason up in \<open>status_map\<close> hashes it, which
  raises \<open>TypeError\<close> for a list or a dictionary; a reason that is not one of the six
  keys gives \<open>unknown\<close>.\<close>

definition gather_final_result :: "manager \<Rightarrow> pydict \<Rightarrow> message list \<Rightarrow> exn + result" where
  "gather_final_result m context chat_history =
     (let reason = dict_get_default context ''termination_reason'' (PStr ''unknown'')
      in if \<not> hashable reason then Inl (TypeError ''unhashable type'')
         else
           (let st = (case reason of
                        PStr r \<Rightarrow> (case status_map r of None \<Rightarrow> ''unknown'' | Some v \<Rightarrow> v)
                      | _ \<Rightarrow> ''unknown'')
            in Inr \<lparr> status = st,
                     termination_reason = reason,
                     r_context = context,
                     r_chat_history = chat_history,
                     rounds_executed = Some (round_counter m),
                     handoff_payload =
                       (if st = ''approved'' then Some (build_settlement_payload context)
                        else if st = ''denied'' then Some (build_denial_payload context)
                        else None),
                     r_missing_documents = None,
                     resume_instructions = None,
                     r_error = None \<rparr>))"

text \<open>\<open>_save_session_snapshot\<close> and \<open>_archive_completed_session\<close>; each reads the clock
  for its own timestamp before \<open>save_session\<close> reads it for \<open>saved_at\<close>.\<close>

definition save_session_snapshot ::
    "run_state \<Rightarrow> pyval \<Rightarrow> string \<Rightarrow> (exn + unit) \<times> run_state" where
  "save_session_snapshot s claim_id st =
     (let (paused_at, w1) = now_z (wld s);
          metadata = [(''status'', PStr st), (''paused_at'', PStr paused_at)]
      in case save_session w1 claim_id (hist s) (ctx s) (Some metadata) of
           Inl e \<Rightarrow> (Inl e, s\<lparr> wld := w1 \<rparr>)
         | Inr w2 \<Rightarrow> (Inr (), s\<lparr> wld := w2 \<rparr>))"

definition archive_completed_session ::
    "run_state \<Rightarrow> pyval \<Rightarrow> result \<Rightarrow> (exn + unit) \<times> run_state" where
  "archive_completed_session s claim_id res =
     (let (completed_at, w1) = now_z (wld s);
          metadata = [(''status'', PStr ''completed''),
                      (''final_status'', PStr (status res)),
                      (''termination_reason'', termination_reason res),
                      (''completed_at'', PStr completed_at)]
      in case save_session w1 claim_id (hist s) (ctx s) (Some metadata) of
           Inl e \<Rightarrow> (Inl e, s\<lparr> wld := w1 \<rparr>)
         | Inr w2 \<Rightarrow>
             (case claim_id of
                PStr cid \<Rightarrow> (Inr (), s\<lparr> wld := snd (archive_session w2 cid) \<rparr>)
              | _ \<Rightarrow> (Inl (TypeError ''unsupported operand type(s) for /''), s\<lparr> wld := w2 \<rparr>)))"

text \<open>Pausing: the snapshot, then the paused result.\<close>

definition pause_run ::
    "run_state \<Rightarrow> pyval \<Rightarrow> string \<Rightarrow> (exn + result) \<times> run_state" where
  "pause_run s claim_id st =
     bind_step (save_session_snapshot s claim_id st) (\<lambda>u s1.
       (Inr (create_paused_result (wld s1) (ctx s1) (hist s1)), s1))"

text \<open>The body of the \<open>try\<close> statement of \<open>process_claim\<close>.\<close>

definition try_body ::
    "orchestrator \<Rightarrow> pyval \<Rightarrow> run_state \<Rightarrow> (exn + result) \<times> run_state" where
  "try_body orch claim_id s =
     bind_step (phase1_sequential_intake orch s) (\<lambda>u s1.
     bind_step (should_pause orch (ctx s1), s1) (\<lambda>pause1 s1.
       if pause1 then pause_run s1 claim_id ''paused_after_phase1''
       else
     bind_step (terminate_check s1) (\<lambda>stop1 s2.
     bind_step (if \<not> stop1 then phase2_magentic_gathering orch s2 else (Inr (), s2)) (\<lambda>u s3.
     bind_step (should_pause orch (ctx s3), s3) (\<lambda>pause2 s3.
       if pause2 then pause_run s3 claim_id ''paused_after_phase2''
       else
     bind_step (terminate_check s3) (\<lambda>stop2 s4.
     bind_step (if \<not> stop2 then phase3_handoff_decision orch s4 else (Inr (), s4)) (\<lambda>u s5.
     bind_step (gather_final_result (mgr s5) (ctx s5) (hist s5), s5) (\<lambda>res s5.
     bind_step (archive_completed_session s5 claim_id res) (\<lambda>u s6.
       (Inr res, s6))))))))))"

text \<open>The \<open>try\<close> statement with its handler: an exception of the body is answered by an
  \<open>error\<close> snapshot and an error result; an exception of that snapshot propagates.\<close>

definition error_result :: "exn \<Rightarrow> pydict \<Rightarrow> message list \<Rightarrow> result" where
  "error_result e context chat_history =
     \<lparr> status = ''error'',
       termination_reason = PStr ''exception'',
       r_context = context,
       r_chat_history = chat_history,
       rounds_executed = None,
       handoff_payload = None,
       r_missing_documents = None,
       resume_instructions = None,
       r_error = Some (exn_str e) \<rparr>"

definition try_except ::
    "orchestrator \<Rightarrow> pyval \<Rightarrow> run_state \<Rightarrow> (exn + result) \<times> run_state" where
  "try_except orch claim_id s =
     (case try_body orch claim_id s of
        (Inr res, s1) \<Rightarrow> (Inr res, s1)
      | (Inl e, s1) \<Rightarrow>
          bind_step (save_session_snapshot s1 claim_id ''error'') (\<lambda>u s2.
            (Inr (error_result e (ctx s2) (hist s2)), s2)))"

text \<open>The statements of \<open>process_claim\<close> before the \<open>try\<close>: they reset the manager, build
  the context, open the trace file and add the note about missing documents. What they
  raise reaches the caller.\<close>

definition system_note :: "world \<Rightarrow> pyval list \<Rightarrow> string" where
  "system_note w missing_docs =
     join [CHR 0x0A]
       ([''System note: The intake portal did not find these referenced documents.'',
         ''Please instruct the customer to upload them before the claim can proceed:'']
        @ map (\<lambda>doc. ''- '' @ py_str w doc) missing_docs)"

definition prepare_run ::
    "orchestrator \<Rightarrow> world \<Rightarrow> pydict \<Rightarrow> message list option \<Rightarrow> pydict option
       \<Rightarrow> exn + run_state" where
  "prepare_run orch w claim_data chat_history existing_context =
     (case initialize_debug_log orch (bootstrap_context claim_data existing_context) of
        Inl e \<Rightarrow> Inl e
      | Inr context \<Rightarrow>
          (let history = (case chat_history of None \<Rightarrow> [] | Some h \<Rightarrow> h)
           in case py_iter (dict_get_default context ''missing_documents'' (PList [])) of
                Inl e \<Rightarrow> Inl e
              | Inr docs \<Rightarrow>
                  (let missing_docs = filter truthy docs;
                       history1 =
                         (if missing_docs \<noteq> []
                          then history @ [new_message SYSTEM (system_note w missing_docs)]
                          else history)
                   in Inr \<lparr> ctx = context, hist = history1,
                            mgr = reset (o_manager orch), wld = w \<rparr>)))"

definition process_claim ::
    "orchestrator \<Rightarrow> world \<Rightarrow> pydict \<Rightarrow> message list option \<Rightarrow> pydict option
       \<Rightarrow> (exn + result) \<times> orchestrator \<times> world" where
  "process_claim orch w claim_data chat_history existing_context =
     (case prepare_run orch w claim_data chat_history existing_context of
        Inl e \<Rightarrow> (Inl e, orch\<lparr> o_manager := reset (o_manager orch) \<rparr>, w)
      | Inr s \<Rightarrow>
          (let claim_id = dict_get_default (ctx s) ''claim_id'' (PStr ''UNKNOWN'')
           in case try_except orch claim_id s of
                (r, s1) \<Rightarrow> (r, orch\<lparr> o_manager := mgr s1 \<rparr>, wld s1)))"

text \<open>
  \<open>continue_claim\<close>. The additional evidence is a dictionary with two optional lists of
  dictionaries, \<open>documents\<close> and \<open>notes\<close>; an absent list is empty here, and a payload that
  is \<open>None\<close> or has neither list changes nothing.
\<close>

record evidence =
  ev_documents :: "pydict list"
  ev_notes :: "pydict list"

text \<open>\<open>context.setdefault(k, []).extend(items)\<close>: a value under \<open>k\<close> that is not a list
  has no \<open>extend\<close>.\<close>

definition extend_key :: "pydict \<Rightarrow> string \<Rightarrow> pyval list \<Rightarrow> exn + pydict" where
  "extend_key context k items =
     (case map_of context k of
        None \<Rightarrow> Inr (dict_set context k (PList items))
      | Some (PList xs) \<Rightarrow> Inr (dict_set context k (PList (xs @ items)))
      | Some _ \<Rightarrow> Inl (AttributeError ''extend''))"

text \<open>The types that go into the set \<open>provided_types\<close>: the truthy \<open>type\<close> of each item;
  adding a value that cannot be hashed raises \<open>TypeError\<close>.\<close>

fun collect_types :: "pydict list \<Rightarrow> exn + pyval list" where
  "collect_types [] = Inr []"
| "collect_types (item # items) =
     (let t = dict_get item ''type''
      in if \<not> truthy t then collect_types items
         else if \<not> hashable t then Inl (TypeError ''unhashable type'')
         else (case collect_types items of
                 Inl e \<Rightarrow> Inl e
               | Inr ts \<Rightarrow> Inr (t # ts)))"

text \<open>\<open>[doc for doc in docs if doc not in provided_types]\<close>: membership in a set hashes
  the document label first.\<close>

fun filter_missing :: "pyval list \<Rightarrow> pyval list \<Rightarrow> exn + pyval list" where
  "filter_missing provided_types [] = Inr []"
| "filter_missing provided_types (doc # docs) =
     (if \<not> hashable doc then Inl (TypeError ''unhashable type'')
      else (case filter_missing provided_types docs of
              Inl e \<Rightarrow> Inl e
            | Inr kept \<Rightarrow>
                Inr (if list_ex (py_eq doc) provided_types then kept else doc # kept)))"

definition note_message :: "world \<Rightarrow> pydict \<Rightarrow> message" where
  "note_message w note =
     new_message USER
       (''Customer provided additional details for '' @ py_str w (dict_get note ''type'')
        @ '': '' @ py_str w (dict_get note ''content''))"

definition merge_evidence ::
    "world \<Rightarrow> pydict \<Rightarrow> message list \<Rightarrow> evidence \<Rightarrow> exn + (pydict \<times> message list)" where
  "merge_evidence w context chat_history additional_documents =
     (let new_documents = ev_documents additional_documents;
          notes = ev_notes additional_documents
      in case (if new_documents \<noteq> []
               then extend_key context ''documents'' (map PDict new_documents)
               else Inr context) of
           Inl e \<Rightarrow> Inl e
         | Inr c1 \<Rightarrow>
        (case (if notes \<noteq> []
               then extend_key c1 ''customer_notes'' (map PDict notes)
               else Inr c1) of
           Inl e \<Rightarrow> Inl e
         | Inr c2 \<Rightarrow>
        (let h2 = chat_history @ map (note_message w) notes
         in case collect_types (new_documents @ notes) of
              Inl e \<Rightarrow> Inl e
            | Inr provided_types \<Rightarrow>
                if provided_types = [] then Inr (c2, h2)
                else
                  (case py_iter (dict_get_default c2 ''missing_documents'' (PList [])) of
                     Inl e \<Rightarrow> Inl e
                   | Inr docs \<Rightarrow>
                  (case filter_missing provided_types docs of
                     Inl e \<Rightarrow> Inl e
                   | Inr kept \<Rightarrow>
                  (case strs_of provided_types of
                     Inl e \<Rightarrow> Inl e
                   | Inr names \<Rightarrow>
                       Inr (dict_set c2 ''missing_documents'' (PList kept),
                            h2 @ [new_message SYSTEM
                                    (''Customer has provided additional evidence for: ''
                                     @ join '', '' (sort (remdups names)))])))))))"

definition continue_claim ::
    "orchestrator \<Rightarrow> world \<Rightarrow> string \<Rightarrow> evidence option
       \<Rightarrow> (exn + result) \<times> orchestrator \<times> world" where
  "continue_claim orch w claim_id additional_documents =
     (if \<not> session_exists w claim_id
      then (Inl (ValueError (''No saved session found for claim_id: '' @ claim_id)), orch, w)
      else
        (case load_session w claim_id of
           Inl e \<Rightarrow> (Inl e, orch, w)
         | Inr None \<Rightarrow> (Inl (TypeError ''NoneType object is not subscriptable''), orch, w)
         | Inr (Some session_data) \<Rightarrow>
             (case (case additional_documents of
                      None \<Rightarrow> Inr (l_context session_data, l_chat_history session_data)
                    | Some ev \<Rightarrow> merge_evidence w (l_context session_data)
                                  (l_chat_history session_data) ev) of
                Inl e \<Rightarrow> (Inl e, orch, w)
              | Inr (context, chat_history) \<Rightarrow>
                  (let claim_data =
                         [(''claim_id'', PStr claim_id),
                          (''policy_number'', dict_get context ''policy_number''),
                          (''claimant_name'', dict_get context ''claimant_name''),
                          (''incident_date'', dict_get context ''incident_date''),
                          (''documents'', dict_get_default context ''documents'' (PList []))]
                   in process_claim orch w claim_data (Some chat_history) (Some context)))))"

section \<open>Observations and invariants\<close>

text \<open>The status and the context that the store holds for a claim.\<close>

definition session_status :: "world \<Rightarrow> string \<Rightarrow> pyval option" where
  "session_status w claim_id =
     (case sessions w claim_id of
        None \<Rightarrow> None
      | Some files \<Rightarrow>
          (case session_json files of None \<Rightarrow> None | Some md \<Rightarrow> map_of md ''status''))"

definition session_context :: "world \<Rightarrow> string \<Rightarrow> pydict option" where
  "session_context w claim_id =
     (case sessions w claim_id of None \<Rightarrow> None | Some files \<Rightarrow> context_json files)"

text \<open>A property of the run state is stable when no write of the three phases and of the
  termination check can break it: the four context keys the phases assign, the reasons
  that \<open>should_terminate\<close> records without a ledger, an appended message, and any change
  of the manager and of the world.\<close>

definition stable :: "(run_state \<Rightarrow> bool) \<Rightarrow> bool" where
  "stable P =
     ((\<forall>s v. P s \<longrightarrow> P (set_ctx s ''ack_sent'' v))
      \<and> (\<forall>s v. P s \<longrightarrow> P (set_ctx s ''state'' v))
      \<and> (\<forall>s v. P s \<longrightarrow> P (set_ctx s ''handoff_payload'' v))
      \<and> (\<forall>s v. P s \<longrightarrow> P (set_ctx s ''handoff_status'' v))
      \<and> (\<forall>s. P s \<longrightarrow> P (s\<lparr> ctx := set_reason (ctx s) ''approved_handoff_ready'' \<rparr>))
      \<and> (\<forall>s. P s \<longrightarrow> P (s\<lparr> ctx := set_reason (ctx s) ''denied_manual'' \<rparr>))
      \<and> (\<forall>s. P s \<longrightarrow> P (s\<lparr> ctx := dict_setdefault (set_reason (ctx s) ''denied_sla_breach'')
                          ''agent_decision'' (PStr ''deny'') \<rparr>))
      \<and> (\<forall>s. P s \<longrightarrow> P (s\<lparr> ctx := set_reason (ctx s) ''max_rounds_exceeded'' \<rparr>))
      \<and> (\<forall>s. P s \<longrightarrow> P (s\<lparr> ctx := set_reason (ctx s) ''human_in_loop_required'' \<rparr>))
      \<and> (\<forall>s m. P s \<longrightarrow> P (add_message s m))
      \<and> (\<forall>s m. P s \<longrightarrow> P (s\<lparr> mgr := m \<rparr>))
      \<and> (\<forall>s w. P s \<longrightarrow> P (s\<lparr> wld := w \<rparr>)))"

text \<open>The three ways in which the body of the \<open>try\<close> statement returns a result: the
  pause after Phase 1, the pause after Phase 2, and the final result followed by the
  archive.\<close>

definition body_outcome ::
    "orchestrator \<Rightarrow> pyval \<Rightarrow> run_state \<Rightarrow> result \<Rightarrow> run_state \<Rightarrow> bool" where
  "body_outcome orch cid s res s' =
     ((\<exists>s1. phase1_sequential_intake orch s = (Inr (), s1)
            \<and> should_pause orch (ctx s1) = Inr True
            \<and> pause_run s1 cid ''paused_after_phase1'' = (Inr res, s'))
      \<or> (\<exists>s1 s3. phase1_sequential_intake orch s = (Inr (), s1)
            \<and> should_pause orch (ctx s1) = Inr False
            \<and> pause_run s3 cid ''paused_after_phase2'' = (Inr res, s'))
      \<or> (\<exists>s1 s5. phase1_sequential_intake orch s = (Inr (), s1)
            \<and> should_pause orch (ctx s1) = Inr False
            \<and> gather_final_result (mgr s5) (ctx s5) (hist s5) = Inr res
            \<and> archive_completed_session s5 cid res = (Inr (), s')))"

text \<open>The context does not name \<open>stalled\<close> as its termination reason.\<close>

definition no_stall :: "run_state \<Rightarrow> bool" where
  "no_stall s = (dict_get (ctx s) ''termination_reason'' \<noteq> PStr ''stalled'')"

text \<open>The missing documents are the given list and the history holds the given
  message.\<close>

definition resolved_inv :: "pyval list \<Rightarrow> message \<Rightarrow> run_state \<Rightarrow> bool" where
  "resolved_inv kept msg s =
     (map_of (ctx s) ''missing_documents'' = Some (PList kept) \<and> msg \<in> set (hist s))"

section \<open>Inputs used in the examples\<close>

text \<open>An approved claim whose handoff is ready and whose SLA is breached.\<close>

definition approved_and_breached :: pydict where
  "approved_and_breached = [(''agent_decision'', PStr ''approve''),
             (''handoff_status'', PStr ''ready_for_settlement''),
             (''sla_breached'', PBool True)]"




text \<open>Two ledger entries of different agents.\<close>

definition entry_A :: ledger_entry where
  "entry_A = \<lparr> agent_name = Some ''policy_specialist'', result_summary = None,
               entry_metadata = None \<rparr>"

definition entry_B :: ledger_entry where
  "entry_B = \<lparr> agent_name = Some ''fraud_analyst'', result_summary = None,
               entry_metadata = None \<rparr>"

text \<open>A world with no sessions, a clock that reads one second later each time, agents
  that never answer, and a \<open>str()\<close> that is only exact on strings.\<close>

definition clock0 :: "nat \<Rightarrow> string" where
  "clock0 n = (if n = 0 then ''2025-01-01T00:00:00'' else
               if n = 1 then ''2025-01-01T00:00:01'' else ''2025-01-01T00:00:02'')"

definition str0 :: "pyval \<Rightarrow> string" where
  "str0 v = (case v of PStr s \<Rightarrow> s | _ \<Rightarrow> ''?'')"

definition world0 :: world where
  "world0 = \<lparr> sessions = (\<lambda>claim_id. None), utcnow = clock0, clock_reads = 0,
              agent_reply = (\<lambda>n role history. Replies None), agent_calls = 0,
              py_str = str0 \<rparr>"

text \<open>A completed session on disk.\<close>

definition completed_metadata :: pydict where
  "completed_metadata =
     [(''claim_id'', PStr ''CLM-1''), (''saved_at'', PStr ''2024-12-31T23:59:59Z''),
      (''message_count'', PInt 0), (''status'', PStr ''completed''),
      (''missing_documents'', PList [])]"

definition completed_files :: session_files where
  "completed_files =
     \<lparr> context_json = Some [(''claim_id'', PStr ''CLM-1'')], history_jsonl = Some [],
       session_json = Some completed_metadata \<rparr>"

definition world_completed :: world where
  "world_completed = world0\<lparr> sessions := (\<lambda>claim_id. None)(''CLM-1'' \<mapsto> completed_files) \<rparr>"

text \<open>An orchestrator with no agents configured and with pausing enabled.\<close>

definition trace0 :: "pyval \<Rightarrow> string" where
  "trace0 cid = ''output/agent_traces/'' @ str0 cid @ ''_trace.txt''"

definition orch0 :: orchestrator where
  "orch0 = new_orchestrator [] 15 3 True trace0"





definition claim_plain :: pydict where
  "claim_plain = [(''claim_id'', PStr ''CLM-1'')]"



text \<open>A claim whose data already carries a termination reason.\<close>

definition stalled_claim :: pydict where
  "stalled_claim = [(''claim_id'', PStr ''CLM-1''), (''termination_reason'', PStr ''stalled'')]"





text \<open>A paused session on disk for a claim that lacks a police report, what
  \<open>load_session\<close> returns for it, and evidence that provides the report.\<close>

definition paused_context :: pydict where
  "paused_context =
     [(''claim_id'', PStr ''CLM-1''),
      (''missing_documents'', PList [PStr ''police_report'']),
      (''state'', PStr ''validation_complete'')]"

definition paused_files :: session_files where
  "paused_files =
     \<lparr> context_json = Some paused_context, history_jsonl = Some [],
       session_json = Some [(''claim_id'', PStr ''CLM-1''),
                            (''status'', PStr ''paused_after_phase1'')] \<rparr>"

definition world_paused :: world where
  "world_paused = world0\<lparr> sessions := (\<lambda>claim_id. None)(''CLM-1'' \<mapsto> paused_files) \<rparr>"

definition police_report_evidence :: evidence where
  "police_report_evidence =
     \<lparr> ev_documents = [[(''type'', PStr ''police_report''), (''filename'', PStr ''report.pdf'')]],
       ev_notes = [] \<rparr>"

definition paused_loaded :: loaded_session where
  "paused_loaded =
     \<lparr> l_chat_history = [], l_context = paused_context,
       l_metadata = [(''claim_id'', PStr ''CLM-1''), (''status'', PStr ''paused_after_phase1'')] \<rparr>"

section \<open>Basic facts\<close>

lemma map_of_dict_set: "map_of (dict_set d k v) = (map_of d)(k \<mapsto> v)"
  by (induction d) auto

lemma dict_get_dict_set:
  "dict_get (dict_set d k v) k' = (if k' = k then v else dict_get d k')"
  by (simp add: dict_get_def map_of_dict_set)

lemma dict_get_default_dict_set:
  "dict_get_default (dict_set d k v) k' dflt =
     (if k' = k then v else dict_get_default d k' dflt)"
  by (simp add: dict_get_default_def map_of_dict_set)

lemma py_eq_PStr: "py_eq v (PStr s) = (v = PStr s)"
  by (cases v) auto

lemma is_stalled_rounds: "rounds_exhausted (snd (is_stalled m l)) = rounds_exhausted m"
  by (simp add: is_stalled_def rounds_exhausted_def Let_def)

lemma is_stalled_hil: "human_in_loop_required (snd (is_stalled m l)) c = human_in_loop_required m c"
  by (simp add: is_stalled_def human_in_loop_required_def Let_def)

lemma set_reason_get: "map_of (set_reason c r) ''termination_reason'' = Some (PStr r)"
  by (simp add: set_reason_def map_of_dict_set)

lemma map_of_dict_setdefault_other:
  "k' \<noteq> k \<Longrightarrow> map_of (dict_setdefault d k v) k' = map_of d k'"
  by (simp add: dict_setdefault_def map_of_dict_set split: option.splits)

lemma should_terminate_approved:
  "is_ready_for_handoff c \<Longrightarrow>
   should_terminate m c l = (Inr True, set_reason c ''approved_handoff_ready'', m)"
  by (simp add: should_terminate_def signal_if_def)

lemma should_terminate_denied_manual:
  "\<not> is_ready_for_handoff c \<Longrightarrow> is_manual_denial c \<Longrightarrow>
   should_terminate m c l = (Inr True, set_reason c ''denied_manual'', m)"
  by (simp add: should_terminate_def signal_if_def)

lemma should_terminate_sla:
  "\<not> is_ready_for_handoff c \<Longrightarrow> \<not> is_manual_denial c \<Longrightarrow>
   truthy (dict_get c ''sla_breached'') \<Longrightarrow>
   should_terminate m c l =
     (Inr True, dict_setdefault (set_reason c ''denied_sla_breach'') ''agent_decision''
                  (PStr ''deny''), m)"
  by (simp add: should_terminate_def signal_if_def)

lemma should_terminate_stalled:
  "\<not> is_ready_for_handoff c \<Longrightarrow> \<not> is_manual_denial c \<Longrightarrow>
   \<not> truthy (dict_get c ''sla_breached'') \<Longrightarrow> ledger_stalled m l \<Longrightarrow>
   \<exists>m'. should_terminate m c l = (Inr True, set_reason c ''stalled'', m')"
  by (auto simp add: should_terminate_def signal_if_def ledger_stalled_def
      split: option.splits prod.splits)

lemma should_terminate_max_rounds:
  "\<not> is_ready_for_handoff c \<Longrightarrow> \<not> is_manual_denial c \<Longrightarrow>
   \<not> truthy (dict_get c ''sla_breached'') \<Longrightarrow> \<not> ledger_stalled m l \<Longrightarrow>
   rounds_exhausted m \<Longrightarrow>
   \<exists>m'. should_terminate m c l = (Inr True, set_reason c ''max_rounds_exceeded'', m')"
  using is_stalled_rounds [of m "the l"]
  by (auto simp add: should_terminate_def signal_if_def ledger_stalled_def
      split: option.splits prod.splits)

section \<open>Termination priority\<close>

text \<open>
  C1. Whenever two or more of the six termination conditions hold together,
  \<open>should_terminate\<close> returns \<open>True\<close> and the \<open>termination_reason\<close> it leaves in the
  context is the name of the first condition, in the order of the list, that holds. In
  particular a context with an approve decision, a handoff that is ready for settlement
  and a breached SLA records \<open>approved_handoff_ready\<close>.
\<close>

theorem should_terminate_priority:
  assumes "2 \<le> length (filter snd (termination_conditions m context task_ledger))"
  shows "\<exists>c' m'. should_terminate m context task_ledger = (Inr True, c', m')
           \<and> map_of c' ''termination_reason''
               = Some (PStr (fst (hd (filter snd (termination_conditions m context task_ledger)))))"
proof (cases "is_ready_for_handoff context")
  case True
  then show ?thesis
    by (simp add: should_terminate_approved termination_conditions_def set_reason_get)
next
  case n1: False
  show ?thesis
  proof (cases "is_manual_denial context")
    case True
    with n1 show ?thesis
      by (simp add: should_terminate_denied_manual termination_conditions_def set_reason_get)
  next
    case n2: False
    show ?thesis
    proof (cases "truthy (dict_get context ''sla_breached'')")
      case True
      with n1 n2 show ?thesis
        by (simp add: should_terminate_sla termination_conditions_def set_reason_get
            map_of_dict_setdefault_other)
    next
      case n3: False
      show ?thesis
      proof (cases "ledger_stalled m task_ledger")
        case True
        with n1 n2 n3 should_terminate_stalled [of "context" m task_ledger] show ?thesis
          by (auto simp add: termination_conditions_def set_reason_get)
      next
        case n4: False
        show ?thesis
        proof (cases "rounds_exhausted m")
          case True
          with n1 n2 n3 n4 should_terminate_max_rounds [of "context" m task_ledger] show ?thesis
            by (auto simp add: termination_conditions_def set_reason_get)
        next
          case False
          with n1 n2 n3 n4 assms show ?thesis
            by (simp add: termination_conditions_def split: if_splits)
        qed
      qed
    qed
  qed
qed

theorem should_terminate_priority_witness:
  "2 \<le> length (filter snd (termination_conditions (new_manager 15 3 True) approved_and_breached None))
   \<and> (\<exists>c' m'. should_terminate (new_manager 15 3 True) approved_and_breached None = (Inr True, c', m')
           \<and> map_of c' ''termination_reason'' = Some (PStr ''approved_handoff_ready''))"
proof -
  have h: "2 \<le> length (filter snd (termination_conditions (new_manager 15 3 True) approved_and_breached None))"
    by (simp add: termination_conditions_def approved_and_breached_def is_ready_for_handoff_def dict_get_def)
  have e: "fst (hd (filter snd (termination_conditions (new_manager 15 3 True) approved_and_breached None)))
     = ''approved_handoff_ready''"
    by (simp add: termination_conditions_def approved_and_breached_def is_ready_for_handoff_def dict_get_def)
  show ?thesis using h should_terminate_priority [OF h] unfolding e by simp
qed

lemma remdups_one:
  "(length (remdups xs) = Suc 0) = (xs \<noteq> [] \<and> (\<exists>a. \<forall>x\<in>set xs. x = a))"
proof -
  have "(length (remdups xs) = Suc 0) = (card (set xs) = 1)"
    by (simp add: length_remdups_card_conv)
  also have "\<dots> = (\<exists>a. set xs = {a})"
    by (simp add: card_1_singleton_iff)
  also have "\<dots> = (xs \<noteq> [] \<and> (\<exists>a. \<forall>x\<in>set xs. x = a))"
  proof
    assume "\<exists>a. set xs = {a}"
    then show "xs \<noteq> [] \<and> (\<exists>a. \<forall>x\<in>set xs. x = a)" by auto
  next
    assume h: "xs \<noteq> [] \<and> (\<exists>a. \<forall>x\<in>set xs. x = a)"
    then obtain a where a: "\<forall>x\<in>set xs. x = a" by blast
    from h obtain y where y: "y \<in> set xs" by (cases xs) auto
    with a have "y = a" by blast
    with y have "a \<in> set xs" by simp
    with a have "set xs = {a}" by blast
    then show "\<exists>a. set xs = {a}" by blast
  qed
  finally show ?thesis .
qed

lemma slice_is_last_n:
  "0 < n \<Longrightarrow> set (slice_from_neg xs n) = set (take (nat n) (rev xs))"
  by (simp add: slice_from_neg_def take_rev)

section \<open>Stall detection\<close>

text \<open>
  C5 (as amended). For a positive \<open>stall_threshold\<close> and a ledger with at least that many
  entries: when the last \<open>stall_threshold\<close> entries all carry the same agent name,
  \<open>_is_stalled\<close> returns \<open>True\<close>; when they do not, it returns \<open>True\<close> exactly when the
  comparable state of the newest entry equals the state the manager remembered from an
  earlier call, and \<open>False\<close> otherwise.
\<close>

theorem is_stalled_window:
  assumes "0 < stall_threshold m" and "stall_threshold m \<le> int (length l)"
  shows "((\<exists>a. \<forall>e\<in>set (take (nat (stall_threshold m)) (rev l)). agent_name e = a)
            \<longrightarrow> fst (is_stalled m l))
       \<and> (\<not> (\<exists>a. \<forall>e\<in>set (take (nat (stall_threshold m)) (rev l)). agent_name e = a)
            \<longrightarrow> fst (is_stalled m l) =
                (case last_ledger_state m of
                   None \<Rightarrow> False
                 | Some s \<Rightarrow> ledger_state_eq (extract_ledger_state (last l)) s))"
proof -
  let ?w = "slice_from_neg l (stall_threshold m)"
  from assms have ne: "l \<noteq> []" by auto
  from assms have wne: "?w \<noteq> []"
    by (auto simp add: slice_from_neg_def)
  have same: "(length (remdups (map agent_name ?w)) = 1)
      = (\<exists>a. \<forall>e\<in>set (take (nat (stall_threshold m)) (rev l)). agent_name e = a)"
    using wne slice_is_last_n [OF assms(1), of l] by (simp add: remdups_one)
  show ?thesis
    using ne assms(2) same
    by (auto simp add: is_stalled_def Let_def split: option.splits)
qed

text \<open>
  C5 as stated fails. With threshold 2 the ledger of two different agents is not stalled
  on a first call, which remembers the newest entry's state; a second call on the same
  ledger then answers \<open>True\<close> although the window still holds two different agents.
  With threshold 0 the empty ledger has enough entries and an empty window, in which all
  entries trivially agree, yet the check answers \<open>False\<close>.
\<close>

theorem is_stalled_differing_actor_counterexample:
  "stall_threshold (new_manager 15 2 True) \<le> int (length [entry_A, entry_B])
   \<and> agent_name entry_A \<noteq> agent_name entry_B
   \<and> fst (is_stalled (snd (is_stalled (new_manager 15 2 True) [entry_A, entry_B]))
                      [entry_A, entry_B])
   \<and> stall_threshold (new_manager 15 0 True) \<le> int (length ([] :: ledger_entry list))
   \<and> \<not> fst (is_stalled (new_manager 15 0 True) [])"
  by (simp add: is_stalled_def new_manager_def slice_from_neg_def entry_A_def entry_B_def
      extract_ledger_state_def Let_def)

theorem is_stalled_window_witness:
  "0 < stall_threshold (new_manager 15 2 True)
   \<and> stall_threshold (new_manager 15 2 True) \<le> int (length [entry_B, entry_A, entry_A])
   \<and> (\<exists>a. \<forall>e\<in>set (take (nat (stall_threshold (new_manager 15 2 True)))
                          (rev [entry_B, entry_A, entry_A])). agent_name e = a)
   \<and> fst (is_stalled (new_manager 15 2 True) [entry_B, entry_A, entry_A])
   \<and> \<not> (\<exists>a. \<forall>e\<in>set (take (nat (stall_threshold (new_manager 15 2 True)))
                          (rev [entry_A, entry_A, entry_B])). agent_name e = a)
   \<and> \<not> fst (is_stalled (new_manager 15 2 True) [entry_A, entry_A, entry_B])"
proof -
  have h1: "0 < stall_threshold (new_manager 15 2 True)" by (simp add: new_manager_def)
  have h2: "stall_threshold (new_manager 15 2 True) \<le> int (length [entry_B, entry_A, entry_A])"
    by (simp add: new_manager_def)
  have h3: "stall_threshold (new_manager 15 2 True) \<le> int (length [entry_A, entry_A, entry_B])"
    by (simp add: new_manager_def)
  have t: "take (nat (stall_threshold (new_manager 15 2 True))) xs = take 2 xs" for xs :: "ledger_entry list"
    by (simp add: new_manager_def)
  have s1: "\<exists>a. \<forall>e\<in>set (take (nat (stall_threshold (new_manager 15 2 True)))
                          (rev [entry_B, entry_A, entry_A])). agent_name e = a"
    unfolding t by (simp add: entry_A_def numeral_2_eq_2)
  have s2: "\<not> (\<exists>a. \<forall>e\<in>set (take (nat (stall_threshold (new_manager 15 2 True)))
                          (rev [entry_A, entry_A, entry_B])). agent_name e = a)"
    unfolding t by (simp add: entry_A_def entry_B_def numeral_2_eq_2)
  have l0: "last_ledger_state (new_manager 15 2 True) = None" by (simp add: new_manager_def)
  show ?thesis
    using h1 h2 s1 s2 is_stalled_window [OF h1 h2] is_stalled_window [OF h1 h3] l0
    by simp
qed

section \<open>The SLA-breach branch\<close>




lemma map_of_json_coerce_dict:
  "map_of (json_coerce_dict d) k = map_option json_coerce (map_of d k)"
  by (induction d) (auto simp add: json_coerce_dict_def)

lemma map_fst_json_coerce_dict: "map fst (json_coerce_dict d) = map fst d"
  by (simp add: json_coerce_dict_def)





section \<open>Saving and loading a session\<close>


lemma map_fst_dict_set:
  "map fst (dict_set d k v) = (if k \<in> set (map fst d) then map fst d else map fst d @ [k])"
  by (induction d) (auto simp add: image_iff, force+)

lemma distinct_dict_set: "distinct (map fst d) \<Longrightarrow> distinct (map fst (dict_set d k v))"
  by (simp add: map_fst_dict_set)

lemma count_key_distinct:
  "distinct (map fst d) \<Longrightarrow> k \<in> set (map fst d) \<Longrightarrow>
   length (filter (\<lambda>kv. fst kv = k) d) = 1"
  by (induction d) (auto simp add: filter_empty_conv image_iff)

lemma key_in_dict_set: "k \<in> set (map fst (dict_set d k v))"
  by (simp add: map_fst_dict_set)

lemma archive_session_existing:
  assumes "sessions w cid = Some files" and "session_json files = Some md"
  shows "archive_session w cid =
     (True, w\<lparr> clock_reads := clock_reads w + 1,
              sessions := (sessions w)(cid \<mapsto>
                files\<lparr> session_json :=
                  Some (json_coerce_dict
                    (dict_set md ''archived_at'' (PStr (utcnow w (clock_reads w) @ ''Z'')))) \<rparr>) \<rparr>)"
  using assms by (simp add: archive_session_def now_z_def)

section \<open>Archiving twice\<close>

text \<open>
  C9. For a session that exists (its directory and its \<open>session.json\<close>, whose keys are
  distinct as those of a JSON object read into a dictionary are), two calls of
  \<open>archive_session\<close> both succeed and leave \<open>context.json\<close> and \<open>history.jsonl\<close> as they
  were; \<open>session.json\<close> still has distinct keys, exactly one of them \<open>archived_at\<close>, and
  its value is the clock reading of the second call (the reading after the first call's).
\<close>

theorem archive_session_twice:
  assumes "sessions w cid = Some files" and "session_json files = Some md"
    and "distinct (map fst md)"
  shows "\<exists>w1 w2 files2 md2.
           archive_session w cid = (True, w1)
         \<and> archive_session w1 cid = (True, w2)
         \<and> sessions w2 cid = Some files2
         \<and> context_json files2 = context_json files
         \<and> history_jsonl files2 = history_jsonl files
         \<and> session_json files2 = Some md2
         \<and> distinct (map fst md2)
         \<and> length (filter (\<lambda>kv. fst kv = ''archived_at'') md2) = 1
         \<and> map_of md2 ''archived_at'' = Some (PStr (utcnow w (clock_reads w + 1) @ ''Z''))"
proof -
  let ?t1 = "utcnow w (clock_reads w) @ ''Z''"
  let ?t2 = "utcnow w (clock_reads w + 1) @ ''Z''"
  let ?md1 = "json_coerce_dict (dict_set md ''archived_at'' (PStr ?t1))"
  let ?files1 = "files\<lparr> session_json := Some ?md1 \<rparr>"
  let ?w1 = "w\<lparr> clock_reads := clock_reads w + 1, sessions := (sessions w)(cid \<mapsto> ?files1) \<rparr>"
  let ?md2 = "json_coerce_dict (dict_set ?md1 ''archived_at'' (PStr ?t2))"
  let ?files2 = "?files1\<lparr> session_json := Some ?md2 \<rparr>"
  let ?w2 = "?w1\<lparr> clock_reads := clock_reads ?w1 + 1, sessions := (sessions ?w1)(cid \<mapsto> ?files2) \<rparr>"
  have a1: "archive_session w cid = (True, ?w1)"
    using assms(1,2) by (rule archive_session_existing)
  have s1: "sessions ?w1 cid = Some ?files1" by simp
  have j1: "session_json ?files1 = Some ?md1" by simp
  have a2: "archive_session ?w1 cid = (True, ?w2)"
    using archive_session_existing [OF s1 j1] by simp
  have d2: "distinct (map fst ?md2)"
    using assms(3) by (simp add: map_fst_json_coerce_dict distinct_dict_set)
  have k2: "''archived_at'' \<in> set (map fst ?md2)"
    by (simp only: map_fst_json_coerce_dict key_in_dict_set)
  have c2: "length (filter (\<lambda>kv. fst kv = ''archived_at'') ?md2) = 1"
    using d2 k2 by (rule count_key_distinct)
  have v2: "map_of ?md2 ''archived_at'' = Some (PStr ?t2)"
    by (simp add: map_of_json_coerce_dict map_of_dict_set)
  have "sessions ?w2 cid = Some ?files2" by simp
  moreover have "context_json ?files2 = context_json files" by simp
  moreover have "history_jsonl ?files2 = history_jsonl files" by simp
  moreover have "session_json ?files2 = Some ?md2" by simp
  ultimately show ?thesis using a1 a2 d2 c2 v2 by blast
qed

theorem archive_session_twice_witness:
  "sessions world_completed ''CLM-1'' = Some completed_files
   \<and> session_json completed_files = Some completed_metadata
   \<and> distinct (map fst completed_metadata)
   \<and> (\<exists>w1 w2 files2 md2.
           archive_session world_completed ''CLM-1'' = (True, w1)
         \<and> archive_session w1 ''CLM-1'' = (True, w2)
         \<and> sessions w2 ''CLM-1'' = Some files2
         \<and> context_json files2 = Some [(''claim_id'', PStr ''CLM-1'')]
         \<and> history_jsonl files2 = Some []
         \<and> session_json files2 = Some md2
         \<and> length (filter (\<lambda>kv. fst kv = ''archived_at'') md2) = 1
         \<and> map_of md2 ''archived_at'' = Some (PStr ''2025-01-01T00:00:01Z''))"
proof -
  have h1: "sessions world_completed ''CLM-1'' = Some completed_files"
    by (simp add: world_completed_def)
  have h2: "session_json completed_files = Some completed_metadata"
    by (simp add: completed_files_def)
  have h3: "distinct (map fst completed_metadata)"
    by (simp add: completed_metadata_def)
  have c: "utcnow world_completed (clock_reads world_completed + 1) @ ''Z''
             = ''2025-01-01T00:00:01Z''"
    by (simp add: world_completed_def world0_def clock0_def)
  have f: "context_json completed_files = Some [(''claim_id'', PStr ''CLM-1'')]"
          "history_jsonl completed_files = Some []"
    by (simp_all add: completed_files_def)
  show ?thesis
    using h1 h2 h3 archive_session_twice [OF h1 h2 h3] unfolding c f by blast
qed

section \<open>Invariants of a run\<close>

lemma stable_ack: "stable P \<Longrightarrow> P s \<Longrightarrow> P (set_ctx s ''ack_sent'' v)"
  by (simp add: stable_def)

lemma stable_state: "stable P \<Longrightarrow> P s \<Longrightarrow> P (set_ctx s ''state'' v)"
  by (simp add: stable_def)

lemma stable_payload: "stable P \<Longrightarrow> P s \<Longrightarrow> P (set_ctx s ''handoff_payload'' v)"
  by (simp add: stable_def)

lemma stable_handoff: "stable P \<Longrightarrow> P s \<Longrightarrow> P (set_ctx s ''handoff_status'' v)"
  by (simp add: stable_def)

lemma stable_msg: "stable P \<Longrightarrow> P s \<Longrightarrow> P (add_message s m)"
  by (simp add: stable_def)

lemma stable_mgr: "stable P \<Longrightarrow> P s \<Longrightarrow> P (s\<lparr> mgr := m \<rparr>)"
  by (simp add: stable_def)

lemma stable_wld: "stable P \<Longrightarrow> P s \<Longrightarrow> P (s\<lparr> wld := w \<rparr>)"
  by (simp add: stable_def)

lemma call_agent_stable:
  assumes "stable P" and "P s" and "call_agent role s = (r, s')"
  shows "P s'"
proof -
  let ?s1 = "s\<lparr> wld := (wld s)\<lparr> agent_calls := agent_calls (wld s) + 1 \<rparr> \<rparr>"
  have p1: "P ?s1" using assms(1,2) by (rule stable_wld)
  show ?thesis
  proof (cases "agent_reply (wld s) (agent_calls (wld s)) role (hist s)")
    case (Raises e)
    with assms(3) have "s' = ?s1" by (simp add: call_agent_def Let_def)
    with p1 show ?thesis by simp
  next
    case (Replies mo)
    show ?thesis
    proof (cases mo)
      case None
      with Replies assms(3) have "s' = ?s1" by (simp add: call_agent_def Let_def)
      with p1 show ?thesis by simp
    next
      case (Some m)
      with Replies assms(3) have "s' = add_message ?s1 m" by (simp add: call_agent_def Let_def)
      with stable_msg [OF assms(1) p1] show ?thesis by simp
    qed
  qed
qed

lemma invoke_agent_stable:
  assumes "stable P" and "P s" and "invoke_agent orch role s = (r, s')"
  shows "P s'"
proof (cases "role \<in> set (agents orch)")
  case True
  with assms(3) have "call_agent role s = (r, s')" by (simp add: invoke_agent_def)
  with assms(1,2) show ?thesis by (rule call_agent_stable)
next
  case False
  with assms(3) have "s' = s" by (simp add: invoke_agent_def)
  with assms(2) show ?thesis by simp
qed

lemma invoke_specialists_stable:
  "stable P \<Longrightarrow> P s \<Longrightarrow> invoke_specialists roles s = (r, s') \<Longrightarrow> P s'"
proof (induction roles arbitrary: s)
  case Nil
  then show ?case by simp
next
  case (Cons role roles)
  obtain r1 s1 where c: "call_agent role s = (r1, s1)" by (cases "call_agent role s")
  from Cons.prems(1,2) c have p1: "P s1" by (rule call_agent_stable)
  show ?case
  proof (cases r1)
    case (Inl e)
    with c Cons.prems(3) have "s' = s1" by simp
    with p1 show ?thesis by simp
  next
    case (Inr a)
    with c Cons.prems(3) have "invoke_specialists roles s1 = (r, s')" by simp
    with Cons.IH [OF Cons.prems(1) p1] show ?thesis by simp
  qed
qed

lemma should_terminate_no_ledger:
  "should_terminate m c None =
     (if is_ready_for_handoff c then (Inr True, set_reason c ''approved_handoff_ready'', m)
      else if is_manual_denial c then (Inr True, set_reason c ''denied_manual'', m)
      else if truthy (dict_get c ''sla_breached'')
        then (Inr True, dict_setdefault (set_reason c ''denied_sla_breach'')
                          ''agent_decision'' (PStr ''deny''), m)
      else if rounds_exhausted m then (Inr True, set_reason c ''max_rounds_exceeded'', m)
      else if human_in_loop_required m c
        then (case py_add (dict_get_default (set_reason c ''human_in_loop_required'')
                             ''missing_documents'' (PList []))
                          (dict_get_default (set_reason c ''human_in_loop_required'')
                             ''missing_information'' (PList [])) of
                Inl e \<Rightarrow> (Inl e, set_reason c ''human_in_loop_required'', m)
              | Inr items \<Rightarrow> (Inr True, set_reason c ''human_in_loop_required'', m))
      else (Inr False, c, m))"
  by (simp add: should_terminate_def signal_if_def Let_def)

lemma terminate_check_cases:
  assumes "terminate_check s = (r, s')"
  shows "s' = s
       \<or> s' = s\<lparr> ctx := set_reason (ctx s) ''approved_handoff_ready'' \<rparr>
       \<or> s' = s\<lparr> ctx := set_reason (ctx s) ''denied_manual'' \<rparr>
       \<or> s' = s\<lparr> ctx := dict_setdefault (set_reason (ctx s) ''denied_sla_breach'')
                          ''agent_decision'' (PStr ''deny'') \<rparr>
       \<or> s' = s\<lparr> ctx := set_reason (ctx s) ''max_rounds_exceeded'' \<rparr>
       \<or> s' = s\<lparr> ctx := set_reason (ctx s) ''human_in_loop_required'' \<rparr>"
  using assms
  by (simp add: terminate_check_def should_terminate_no_ledger split: if_splits sum.splits)

lemma terminate_check_stable:
  assumes "stable P" and "P s" and "terminate_check s = (r, s')"
  shows "P s'"
proof -
  from assms(1,2) have
    a: "P (s\<lparr> ctx := set_reason (ctx s) ''approved_handoff_ready'' \<rparr>)"
    and b: "P (s\<lparr> ctx := set_reason (ctx s) ''denied_manual'' \<rparr>)"
    and c: "P (s\<lparr> ctx := dict_setdefault (set_reason (ctx s) ''denied_sla_breach'')
                          ''agent_decision'' (PStr ''deny'') \<rparr>)"
    and d: "P (s\<lparr> ctx := set_reason (ctx s) ''max_rounds_exceeded'' \<rparr>)"
    and e: "P (s\<lparr> ctx := set_reason (ctx s) ''human_in_loop_required'' \<rparr>)"
    by (simp_all add: stable_def)
  from terminate_check_cases [OF assms(3)] a b c d e assms(2) show ?thesis
    by (elim disjE) simp_all
qed

lemma bind_stepE:
  assumes "bind_step x f = (r, s')"
  obtains (raised) e where "x = (Inl e, s')" and "r = Inl e"
        | (went_on) a s1 where "x = (Inr a, s1)" and "f a s1 = (r, s')"
proof (cases x)
  case (Pair r1 s1)
  show ?thesis
  proof (cases r1)
    case (Inl e)
    with Pair assms have "x = (Inl e, s')" "r = Inl e" by (simp_all add: bind_step_def)
    then show ?thesis by (rule raised)
  next
    case (Inr a)
    with Pair assms have "x = (Inr a, s1)" "f a s1 = (r, s')" by (simp_all add: bind_step_def)
    then show ?thesis by (rule went_on)
  qed
qed

lemma require_claim_id_state: "require_claim_id s = (r, s') \<Longrightarrow> s' = s"
  by (simp add: require_claim_id_def split: option.splits)

lemma phase1_stable:
  assumes st: "stable P" and p: "P s" and run: "phase1_sequential_intake orch s = (r, s')"
  shows "P s'"
proof -
  define s0 where "s0 = (case map_of (ctx s) ''original_content'' of
                   None \<Rightarrow> s
                 | Some oc \<Rightarrow>
                     add_message s (new_message USER
                       (''New claim submission:'' @ [CHR 0x0A, CHR 0x0A] @ py_str (wld s) oc)))"
  have p0: "P s0"
    unfolding s0_def using p stable_msg [OF st p] by (simp split: option.splits)
  from run show ?thesis
    unfolding phase1_sequential_intake_def
  proof (cases rule: bind_stepE)
    case (raised e)
    then show ?thesis using p require_claim_id_state by blast
  next
    case (went_on u sa)
    then have sa: "sa = s" using require_claim_id_state by blast
    from went_on(2) have
      "bind_step (invoke_agent orch ''intake_coordinator'' s0) (\<lambda>r1 s1.
            let s1a = (if r1 \<noteq> None then set_ctx s1 ''ack_sent'' (PBool True) else s1)
            in bind_step (invoke_agent orch ''policy_specialist'' s1a) (\<lambda>r2 s2.
                 bind_step (invoke_agent orch ''document_validator'' s2) (\<lambda>r3 s3.
                   let s4 = set_ctx s3 ''state'' (PStr ''validation_complete'')
                   in case py_len (dict_get_default (ctx s4) ''missing_documents'' (PList [])) of
                        Inl e \<Rightarrow> (Inl e, s4)
                      | Inr n \<Rightarrow> (Inr (), s4)))) = (r, s')"
      unfolding sa s0_def Let_def .
    then show ?thesis
    proof (cases rule: bind_stepE)
      case (raised e)
      with st p0 show ?thesis by (blast intro: invoke_agent_stable)
    next
      case (went_on r1 s1)
      from st p0 went_on(1) have p1: "P s1" by (rule invoke_agent_stable)
      define s1a where "s1a = (if r1 \<noteq> None then set_ctx s1 ''ack_sent'' (PBool True) else s1)"
      have p1a: "P s1a" unfolding s1a_def using p1 stable_ack [OF st p1] by simp
      from went_on(2) have
        "bind_step (invoke_agent orch ''policy_specialist'' s1a) (\<lambda>r2 s2.
                 bind_step (invoke_agent orch ''document_validator'' s2) (\<lambda>r3 s3.
                   let s4 = set_ctx s3 ''state'' (PStr ''validation_complete'')
                   in case py_len (dict_get_default (ctx s4) ''missing_documents'' (PList [])) of
                        Inl e \<Rightarrow> (Inl e, s4)
                      | Inr n \<Rightarrow> (Inr (), s4))) = (r, s')"
        unfolding s1a_def Let_def .
      then show ?thesis
      proof (cases rule: bind_stepE)
        case (raised e)
        with st p1a show ?thesis by (blast intro: invoke_agent_stable)
      next
        case (went_on r2 s2)
        from st p1a went_on(1) have p2: "P s2" by (rule invoke_agent_stable)
        from went_on(2) show ?thesis
        proof (cases rule: bind_stepE)
          case (raised e)
          with st p2 show ?thesis by (blast intro: invoke_agent_stable)
        next
          case (went_on r3 s3)
          from st p2 went_on(1) have p3: "P s3" by (rule invoke_agent_stable)
          from went_on(2) have "s' = set_ctx s3 ''state'' (PStr ''validation_complete'')"
            by (simp add: Let_def split: sum.splits)
          with stable_state [OF st p3] show ?thesis by simp
        qed
      qed
    qed
  qed
qed

lemma gathering_loop_stable:
  "stable P \<Longrightarrow> P s \<Longrightarrow> gathering_loop orch sp s = (r, s') \<Longrightarrow> P s'"
proof (induction orch sp s rule: gathering_loop.induct)
  case (1 orch sp s)
  note st = "1.prems"(1) and p = "1.prems"(2)
  note run = "1.prems"(3) [unfolded gathering_loop.simps [of orch sp s]]
  obtain r1 s1 where tc: "terminate_check s = (r1, s1)" by (cases "terminate_check s")
  from st p tc have p1: "P s1" by (rule terminate_check_stable)
  show ?case
  proof (cases r1)
    case (Inl e)
    with run tc have "s' = s1" by simp
    with p1 show ?thesis by simp
  next
    case (Inr b)
    show ?thesis
    proof (cases b)
      case True
      with Inr run tc have "s' = s1" by simp
      with p1 show ?thesis by simp
    next
      case False
      obtain r2 s2 where sp: "invoke_specialists sp s1 = (r2, s2)"
        by (cases "invoke_specialists sp s1")
      from st p1 sp have p2: "P s2" by (rule invoke_specialists_stable)
      show ?thesis
      proof (cases r2)
        case (Inl e)
        with Inr False run tc sp have "s' = s2" by simp
        with p2 show ?thesis by simp
      next
        case (Inr u)
        define s3 where "s3 = s2\<lparr>mgr := record_round (mgr s2)\<rparr>"
        have p3: "P s3" unfolding s3_def using st p2 by (rule stable_mgr)
        show ?thesis
        proof (cases "o_enable_human_in_loop orch \<and> truthy (dict_get (ctx s3) ''missing_documents'')")
          case True
          with \<open>r1 = Inr b\<close> False Inr run tc sp have "s' = s3"
            by (simp add: s3_def Let_def)
          with p3 show ?thesis by simp
        next
          case stop: False
          with \<open>r1 = Inr b\<close> False Inr run tc sp have "gathering_loop orch sp s3 = (r, s')"
            by (auto simp add: s3_def Let_def split: if_splits)
          moreover have bF: "b = False" using False by simp
          ultimately show ?thesis
            using "1.IH" [OF tc [symmetric] \<open>r1 = Inr b\<close> bF sp [symmetric] Inr s3_def stop st p3]
            by simp
        qed
      qed
    qed
  qed
qed

lemma phase2_stable:
  assumes st: "stable P" and p: "P s" and run: "phase2_magentic_gathering orch s = (r, s')"
  shows "P s'"
  using run unfolding phase2_magentic_gathering_def
proof (cases rule: bind_stepE)
  case (raised e)
  then show ?thesis using p require_claim_id_state by blast
next
  case (went_on u sa)
  then have sa: "sa = s" using require_claim_id_state by blast
  show ?thesis
  proof (cases "truthy (dict_get (ctx s) ''missing_documents'')
          \<or> truthy (dict_get (ctx s) ''missing_information'')")
    case True
    with went_on(2) have "s' = s \<or> (\<exists>v. s' = set_ctx s ''handoff_payload'' v)"
      unfolding sa by (auto split: sum.splits if_splits)
    with p stable_payload [OF st p] show ?thesis by auto
  next
    case False
    define s1 where "s1 = set_ctx s ''state'' (PStr ''adaptive_gathering'')"
    have p1: "P s1" unfolding s1_def using st p by (rule stable_state)
    show ?thesis
    proof (cases "filter (\<lambda>role. role \<in> set (agents orch)) SPECIALIST_ROLES = []")
      case True
      with False went_on(2) have "s' = s1" unfolding sa s1_def by (simp add: Let_def)
      with p1 show ?thesis by simp
    next
      case ne: False
      with False went_on(2) have
        "bind_step (gathering_loop orch (filter (\<lambda>role. role \<in> set (agents orch)) SPECIALIST_ROLES) s1)
           (\<lambda>u s2. (Inr (), set_ctx s2 ''state'' (PStr ''data_gathering_complete''))) = (r, s')"
        unfolding sa s1_def by (simp add: Let_def)
      then show ?thesis
      proof (cases rule: bind_stepE)
        case (raised e)
        with st p1 show ?thesis by (blast intro: gathering_loop_stable)
      next
        case (went_on u2 s2)
        from st p1 went_on(1) have p2: "P s2" by (rule gathering_loop_stable)
        from went_on(2) have "s' = set_ctx s2 ''state'' (PStr ''data_gathering_complete'')" by simp
        with stable_state [OF st p2] show ?thesis by simp
      qed
    qed
  qed
qed

lemma phase3_stable:
  assumes st: "stable P" and p: "P s" and run: "phase3_handoff_decision orch s = (r, s')"
  shows "P s'"
  using run unfolding phase3_handoff_decision_def
proof (cases rule: bind_stepE)
  case (raised e)
  then show ?thesis using p require_claim_id_state by blast
next
  case (went_on u sa)
  then have sa: "sa = s" using require_claim_id_state by blast
  from went_on(2) show ?thesis unfolding sa
  proof (cases rule: bind_stepE)
    case (raised e)
    with st p show ?thesis by (blast intro: invoke_agent_stable)
  next
    case (went_on r1 s1)
    from st p went_on(1) have p1: "P s1" by (rule invoke_agent_stable)
    from went_on(2) show ?thesis
    proof (cases rule: bind_stepE)
      case (raised e)
      with st p1 show ?thesis by (blast intro: invoke_agent_stable)
    next
      case (went_on r2 s2)
      from st p1 went_on(1) have p2: "P s2" by (rule invoke_agent_stable)
      from went_on(2) show ?thesis
      proof (cases rule: bind_stepE)
        case (raised e)
        with st p2 show ?thesis by (blast intro: invoke_agent_stable)
      next
        case (went_on r3 s3)
        from st p2 went_on(1) have p3: "P s3" by (rule invoke_agent_stable)
        from went_on(2) p3 stable_handoff [OF st p3] show ?thesis
          by (auto split: if_splits)
      qed
    qed
  qed
qed

lemma save_session_status:
  "\<exists>w'. save_session w (PStr cid) h c (Some ((''status'', PStr st) # extra)) = Inr w'
        \<and> agent_calls w' = agent_calls w
        \<and> py_str w' = py_str w
        \<and> session_context w' cid = Some (json_coerce_dict c)
        \<and> (''status'' \<notin> fst ` set extra \<longrightarrow> session_status w' cid = Some (PStr st))"
proof -
  let ?sm = "[(''claim_id'', PStr cid),
              (''saved_at'', PStr (utcnow w (clock_reads w) @ ''Z'')),
              (''message_count'', PInt (int (length h))),
              (''status'', dict_get_default c ''state'' (PStr ''unknown'')),
              (''missing_documents'', dict_get_default c ''missing_documents'' (PList []))]"
  let ?md = "json_coerce_dict (dict_update ?sm ((''status'', PStr st) # extra))"
  let ?w' = "w\<lparr> clock_reads := clock_reads w + 1,
               sessions := (sessions w)(cid \<mapsto>
                 \<lparr> context_json = Some (json_coerce_dict c),
                   history_jsonl = Some (map (\<lambda>message. json_coerce_dict (serialize_message message)) h),
                   session_json = Some ?md \<rparr>) \<rparr>"
  have sv: "save_session w (PStr cid) h c (Some ((''status'', PStr st) # extra)) = Inr ?w'"
    by (simp add: save_session_def now_z_def Let_def)
  have keep: "k \<notin> fst ` set e \<Longrightarrow> map_of (foldl (\<lambda>acc (k, v). dict_set acc k v) d e) k = map_of d k"
    for k e and d :: pydict
    by (induction e arbitrary: d) (auto simp add: map_of_dict_set)
  have "''status'' \<notin> fst ` set extra \<Longrightarrow> map_of ?md ''status'' = Some (PStr st)"
    by (simp add: dict_update_def keep map_of_json_coerce_dict map_of_dict_set)
  then have st: "''status'' \<notin> fst ` set extra \<longrightarrow> session_status ?w' cid = Some (PStr st)"
    by (simp add: session_status_def)
  have cx: "session_context ?w' cid = Some (json_coerce_dict c)"
    by (simp add: session_context_def)
  have "agent_calls ?w' = agent_calls w" "py_str ?w' = py_str w" by simp_all
  with sv st cx show ?thesis by blast
qed

lemma snapshot_frame:
  assumes "save_session_snapshot s cid st = (r, s')"
  shows "\<exists>w'. s' = s\<lparr> wld := w' \<rparr>"
proof (cases "save_session (snd (now_z (wld s))) cid (hist s) (ctx s)
                (Some [(''status'', PStr st), (''paused_at'', PStr (fst (now_z (wld s))))])")
  case (Inl e)
  with assms have "s' = s\<lparr> wld := snd (now_z (wld s)) \<rparr>"
    by (simp add: save_session_snapshot_def Let_def split_beta)
  then show ?thesis by blast
next
  case (Inr w2)
  with assms have "s' = s\<lparr> wld := w2 \<rparr>"
    by (simp add: save_session_snapshot_def Let_def split_beta)
  then show ?thesis by blast
qed

lemma snapshot_str:
  "\<exists>w'. save_session_snapshot s (PStr cid) st = (Inr (), s\<lparr> wld := w' \<rparr>)
        \<and> session_status w' cid = Some (PStr st)
        \<and> session_context w' cid = Some (json_coerce_dict (ctx s))
        \<and> agent_calls w' = agent_calls (wld s)
        \<and> py_str w' = py_str (wld s)"
proof -
  let ?w1 = "snd (now_z (wld s))"
  from save_session_status [of ?w1 cid "hist s" "ctx s" st
        "[(''paused_at'', PStr (fst (now_z (wld s))))]"]
  obtain w' where sv: "save_session ?w1 (PStr cid) (hist s) (ctx s)
        (Some [(''status'', PStr st), (''paused_at'', PStr (fst (now_z (wld s))))]) = Inr w'"
    and f: "agent_calls w' = agent_calls ?w1" "py_str w' = py_str ?w1"
       "session_context w' cid = Some (json_coerce_dict (ctx s))"
       "session_status w' cid = Some (PStr st)"
    by auto
  from sv have "save_session_snapshot s (PStr cid) st = (Inr (), s\<lparr> wld := w' \<rparr>)"
    by (simp add: save_session_snapshot_def Let_def split_beta)
  moreover have "agent_calls ?w1 = agent_calls (wld s)" "py_str ?w1 = py_str (wld s)"
    by (simp_all add: now_z_def)
  ultimately show ?thesis using f by auto
qed

lemma archive_frame:
  assumes "archive_completed_session s cid res = (r, s')"
  shows "\<exists>w'. s' = s\<lparr> wld := w' \<rparr>"
proof -
  let ?md = "[(''status'', PStr ''completed''), (''final_status'', PStr (status res)),
              (''termination_reason'', termination_reason res),
              (''completed_at'', PStr (fst (now_z (wld s))))]"
  show ?thesis
  proof (cases "save_session (snd (now_z (wld s))) cid (hist s) (ctx s) (Some ?md)")
    case (Inl e)
    with assms have "s' = s\<lparr> wld := snd (now_z (wld s)) \<rparr>"
      by (simp add: archive_completed_session_def Let_def split_beta)
    then show ?thesis by blast
  next
    case (Inr w2)
    with assms have "s' = s\<lparr> wld := w2 \<rparr> \<or> (\<exists>c. s' = s\<lparr> wld := snd (archive_session w2 c) \<rparr>)"
      by (cases cid) (auto simp add: archive_completed_session_def Let_def split_beta)
    then show ?thesis by blast
  qed
qed



lemma pause_run_frame:
  assumes "pause_run s cid st = (r, s')"
  shows "\<exists>w'. s' = s\<lparr> wld := w' \<rparr>"
  using assms unfolding pause_run_def
proof (cases rule: bind_stepE)
  case (raised e)
  from raised(1) show ?thesis by (rule snapshot_frame)
next
  case (went_on u s1)
  from went_on(2) have "s' = s1" by simp
  with snapshot_frame [OF went_on(1)] show ?thesis by simp
qed

lemma pause_run_result:
  assumes "pause_run s cid st = (Inr res, s')"
  shows "res = create_paused_result (wld s') (ctx s') (hist s')"
  using assms unfolding pause_run_def
proof (cases rule: bind_stepE)
  case (raised e)
  then show ?thesis by simp
next
  case (went_on u s1)
  then show ?thesis by auto
qed


lemma lift_stepE:
  assumes "bind_step (x, s) f = (r, s')"
  obtains (raised) e where "x = Inl e" and "r = Inl e" and "s' = s"
        | (went_on) a where "x = Inr a" and "f a s = (r, s')"
  using assms by (cases x) (auto simp add: bind_step_def)

lemma try_body_outcome:
  assumes st: "stable P" and p: "P s" and run: "try_body orch cid s = (r, s')"
  shows "P s' \<and> (\<forall>res. r = Inr res \<longrightarrow> body_outcome orch cid s res s')"
  using run unfolding try_body_def
proof (cases rule: bind_stepE)
  case (raised e)
  with st p show ?thesis by (auto intro: phase1_stable)
next
  case ph1: (went_on u s1)
  from st p ph1(1) have p1: "P s1" by (rule phase1_stable)
  from ph1(1) have ph1eq: "phase1_sequential_intake orch s = (Inr (), s1)" by simp
  from ph1(2) show ?thesis
  proof (cases rule: lift_stepE)
    case (raised e)
    with p1 show ?thesis by simp
  next
    case sp1: (went_on pause1)
    show ?thesis
    proof (cases pause1)
      case True
      with sp1(2) have pr: "pause_run s1 cid ''paused_after_phase1'' = (r, s')" by simp
      from pause_run_frame [OF pr] stable_wld [OF st p1] have "P s'" by auto
      moreover from sp1(1) True have "should_pause orch (ctx s1) = Inr True" by simp
      with pr ph1eq
      have "\<forall>res. r = Inr res \<longrightarrow> body_outcome orch cid s res s'"
        unfolding body_outcome_def by blast
      ultimately show ?thesis by simp
    next
      case np1: False
      with sp1(1) have sp1eq: "should_pause orch (ctx s1) = Inr False" by simp
      from np1 have pF1: "pause1 = False" by simp
      from sp1(2) [unfolded pF1 if_False] show ?thesis
      proof (cases rule: bind_stepE)
        case (raised e)
        with st p1 show ?thesis by (auto intro: terminate_check_stable)
      next
        case tc1: (went_on stop1 s2)
        from st p1 tc1(1) have p2: "P s2" by (rule terminate_check_stable)
        from tc1(2) show ?thesis
        proof (cases rule: bind_stepE)
          case (raised e)
          with st p2 show ?thesis by (auto intro: phase2_stable split: if_splits)
        next
          case ph2: (went_on u2 s3)
          from st p2 ph2(1) have p3: "P s3" by (auto intro: phase2_stable split: if_splits)
          from ph2(2) show ?thesis
          proof (cases rule: lift_stepE)
            case (raised e)
            with p3 show ?thesis by simp
          next
            case sp2: (went_on pause2)
            show ?thesis
            proof (cases pause2)
              case True
              with sp2(2) have pr: "pause_run s3 cid ''paused_after_phase2'' = (r, s')" by simp
              from pause_run_frame [OF pr] stable_wld [OF st p3] have "P s'" by auto
              moreover from pr ph1eq sp1eq
              have "\<forall>res. r = Inr res \<longrightarrow> body_outcome orch cid s res s'"
                unfolding body_outcome_def by blast
              ultimately show ?thesis by simp
            next
              case np2: False
              from np2 have pF2: "pause2 = False" by simp
              from sp2(2) [unfolded pF2 if_False] show ?thesis
              proof (cases rule: bind_stepE)
                case (raised e)
                with st p3 show ?thesis by (auto intro: terminate_check_stable)
              next
                case tc2: (went_on stop2 s4)
                from st p3 tc2(1) have p4: "P s4" by (rule terminate_check_stable)
                from tc2(2) show ?thesis
                proof (cases rule: bind_stepE)
                  case (raised e)
                  with st p4 show ?thesis by (auto intro: phase3_stable split: if_splits)
                next
                  case ph3: (went_on u3 s5)
                  from st p4 ph3(1) have p5: "P s5"
                    by (auto intro: phase3_stable split: if_splits)
                  from ph3(2) show ?thesis
                  proof (cases rule: lift_stepE)
                    case (raised e)
                    with p5 show ?thesis by simp
                  next
                    case gf: (went_on res0)
                    from gf(2) show ?thesis
                    proof (cases rule: bind_stepE)
                      case (raised e)
                      from archive_frame [OF raised(1)] stable_wld [OF st p5] raised(2)
                      show ?thesis by auto
                    next
                      case ar: (went_on u4 s6)
                      from ar(2) have e: "r = Inr res0" "s' = s6" by simp_all
                      from archive_frame [OF ar(1)] stable_wld [OF st p5] e have "P s'" by auto
                      moreover from ar(1) e gf(1) ph1eq sp1eq
                      have "\<forall>res. r = Inr res \<longrightarrow> body_outcome orch cid s res s'"
                        unfolding body_outcome_def by auto
                      ultimately show ?thesis by simp
                    qed
                  qed
                qed
              qed
            qed
          qed
        qed
      qed
    qed
  qed
qed

section \<open>Unfolding the model on concrete inputs\<close>

lemmas py_defs = dict_get_def dict_get_default_def dict_setdefault_def dict_update_def
  set_reason_def signal_if_def is_ready_for_handoff_def is_manual_denial_def
  human_in_loop_required_def rounds_exhausted_def reset_def record_round_def new_manager_def

lemmas store_defs = save_session_def load_session_def session_exists_def archive_session_def
  now_z_def json_coerce_dict_def serialize_message_def deserialize_message_def role_map_def
  session_status_def session_context_def

lemmas run_defs = bind_step_def new_message_def add_message_def call_agent_def
  invoke_agent_def bootstrap_context_def initialize_debug_log_def require_claim_id_def
  set_ctx_def phase1_sequential_intake_def terminate_check_def should_terminate_def
  phase2_magentic_gathering_def phase3_handoff_decision_def should_pause_def
  create_paused_result_def build_settlement_payload_def build_denial_payload_def
  status_map_def gather_final_result_def save_session_snapshot_def
  archive_completed_session_def pause_run_def try_body_def error_result_def try_except_def
  system_note_def prepare_run_def process_claim_def new_orchestrator_def SPECIALIST_ROLES_def

section \<open>The error boundary of process_claim\<close>


lemma try_except_str:
  "\<exists>res s'. try_except orch (PStr cid) s = (Inr res, s')
      \<and> (\<forall>e s1. try_body orch (PStr cid) s = (Inl e, s1) \<longrightarrow>
             res = error_result e (ctx s1) (hist s1)
           \<and> session_status (wld s') cid = Some (PStr ''error'')
           \<and> session_context (wld s') cid = Some (json_coerce_dict (ctx s1)))"
proof (cases "try_body orch (PStr cid) s")
  case (Pair r s1)
  show ?thesis
  proof (cases r)
    case (Inr res)
    with Pair show ?thesis by (simp add: try_except_def)
  next
    case (Inl e)
    from snapshot_str [of s1 cid "''error''"] obtain w' where
      sv: "save_session_snapshot s1 (PStr cid) ''error'' = (Inr (), s1\<lparr> wld := w' \<rparr>)"
      and f: "session_status w' cid = Some (PStr ''error'')"
             "session_context w' cid = Some (json_coerce_dict (ctx s1))"
      by blast
    from Pair Inl sv have
      "try_except orch (PStr cid) s = (Inr (error_result e (ctx s1) (hist s1)), s1\<lparr> wld := w' \<rparr>)"
      by (simp add: try_except_def bind_step_def)
    with Pair Inl f show ?thesis by simp
  qed
qed



section \<open>Resuming a claim that has no session\<close>

text \<open>
  C8. For a claim id without a session (no directory, or no \<open>session.json\<close> in it),
  \<open>continue_claim\<close> raises \<open>ValueError\<close> naming the claim id, whatever the evidence, and
  leaves the orchestrator and the world as they were: \<open>process_claim\<close> is not entered, so
  the manager is not reset, no agent is invoked and nothing is saved.
\<close>

theorem continue_claim_not_found:
  assumes "\<not> session_exists w claim_id"
  shows "continue_claim orch w claim_id additional_documents =
           (Inl (ValueError (''No saved session found for claim_id: '' @ claim_id)), orch, w)"
  using assms by (simp add: continue_claim_def)

theorem continue_claim_not_found_witness:
  "\<not> session_exists world0 ''CLM-404''
   \<and> fst (continue_claim orch0 world0 ''CLM-404'' None)
       = Inl (ValueError ''No saved session found for claim_id: CLM-404'')
   \<and> sessions (snd (snd (continue_claim orch0 world0 ''CLM-404'' None))) ''CLM-404'' = None
   \<and> agent_calls (snd (snd (continue_claim orch0 world0 ''CLM-404'' None))) = 0"
proof -
  have h: "\<not> session_exists world0 ''CLM-404''"
    by (simp add: session_exists_def world0_def)
  show ?thesis
    using h continue_claim_not_found [OF h, of orch0 None]
    by (simp add: world0_def)
qed

section \<open>No stalled result without a ledger\<close>

text \<open>
  C10 as stated fails. \<open>gather_final_result\<close> reads the reason from the context, and the
  context starts as the caller's claim data: a claim that arrives with
  \<open>termination_reason = "stalled"\<close> and meets no termination condition keeps that value
  through the three phases, and the result has reason and status \<open>stalled\<close>.
\<close>

theorem stalled_result_counterexample:
  "\<not> isl (fst (process_claim orch0 world0 stalled_claim None None))
   \<and> status (projr (fst (process_claim orch0 world0 stalled_claim None None))) = ''stalled''
   \<and> termination_reason (projr (fst (process_claim orch0 world0 stalled_claim None None)))
       = PStr ''stalled''"
proof -
  have "\<exists>res. fst (process_claim orch0 world0 stalled_claim None None) = Inr res
          \<and> status res = ''stalled'' \<and> termination_reason res = PStr ''stalled''"
    by (simp add: run_defs py_defs store_defs orch0_def world0_def stalled_claim_def Let_def)
  then show ?thesis by auto
qed

lemma dict_get_setdefault_other:
  "k' \<noteq> k \<Longrightarrow> dict_get (dict_setdefault d k v) k' = dict_get d k'"
  by (simp add: dict_get_def map_of_dict_setdefault_other)

lemma no_stall_stable: "stable no_stall"
  by (simp add: stable_def no_stall_def set_ctx_def add_message_def set_reason_def
      dict_get_dict_set dict_get_setdefault_other)

lemma gather_not_stalled:
  assumes "gather_final_result m c h = Inr res"
    and "dict_get c ''termination_reason'' \<noteq> PStr ''stalled''"
  shows "termination_reason res \<noteq> PStr ''stalled'' \<and> status res \<noteq> ''stalled''"
proof -
  let ?reason = "dict_get_default c ''termination_reason'' (PStr ''unknown'')"
  from assms(2) have ns: "?reason \<noteq> PStr ''stalled''"
    by (auto simp add: dict_get_def dict_get_default_def split: option.splits)
  from assms(1) have tr: "termination_reason res = ?reason"
    by (auto simp add: gather_final_result_def Let_def split: if_splits)
  have sm: "status_map r = Some ''stalled'' \<Longrightarrow> r = ''stalled''" for r
    by (simp add: status_map_def split: if_splits)
  from assms(1) have "status res =
      (case ?reason of
         PStr r \<Rightarrow> (case status_map r of None \<Rightarrow> ''unknown'' | Some v \<Rightarrow> v)
       | _ \<Rightarrow> ''unknown'')"
    by (auto simp add: gather_final_result_def Let_def split: if_splits)
  with ns sm have "status res \<noteq> ''stalled''"
    by (auto split: pyval.splits option.splits)
  with tr ns show ?thesis by simp
qed

text \<open>
  C10 (as amended). The orchestrator asks \<open>should_terminate\<close> without a ledger
  (\<open>terminate_check\<close>), so the stall condition is never evaluated, and no result that
  \<open>process_claim\<close> returns has the reason or the status \<open>stalled\<close>, provided the
  context built from the caller's data does not already carry the reason \<open>stalled\<close>.
\<close>

theorem no_stalled_result:
  assumes "dict_get (bootstrap_context claim_data existing_context) ''termination_reason''
             \<noteq> PStr ''stalled''"
  shows "\<forall>res orch' w'.
           process_claim orch w claim_data chat_history existing_context = (Inr res, orch', w')
           \<longrightarrow> termination_reason res \<noteq> PStr ''stalled'' \<and> status res \<noteq> ''stalled''"
proof (intro allI impI)
  fix res orch' w'
  assume run: "process_claim orch w claim_data chat_history existing_context = (Inr res, orch', w')"
  show "termination_reason res \<noteq> PStr ''stalled'' \<and> status res \<noteq> ''stalled''"
  proof (cases "prepare_run orch w claim_data chat_history existing_context")
    case (Inl e)
    with run show ?thesis by (simp add: process_claim_def)
  next
    case (Inr s)
    let ?cid = "dict_get_default (ctx s) ''claim_id'' (PStr ''UNKNOWN'')"
    from Inr assms have p: "no_stall s"
      by (auto simp add: prepare_run_def initialize_debug_log_def no_stall_def Let_def
          dict_get_dict_set split: sum.splits option.splits)
    obtain r1 s1 where tb: "try_body orch ?cid s = (r1, s1)" by (cases "try_body orch ?cid s")
    from try_body_outcome [OF no_stall_stable p tb]
    have p1: "no_stall s1" and out: "\<forall>res. r1 = Inr res \<longrightarrow> body_outcome orch ?cid s res s1"
      by simp_all
    obtain r2 s2 where te: "try_except orch ?cid s = (r2, s2)"
      by (cases "try_except orch ?cid s")
    with Inr run have r2: "r2 = Inr res" by (simp add: process_claim_def Let_def)
    show ?thesis
    proof (cases r1)
      case (Inl e)
      with tb te r2 have
        "bind_step (save_session_snapshot s1 ?cid ''error'')
           (\<lambda>u s2. (Inr (error_result e (ctx s2) (hist s2)), s2)) = (Inr res, s2)"
        by (simp add: try_except_def)
      then have "\<exists>t :: run_state. res = error_result e (ctx t) (hist t)"
      proof (cases rule: bind_stepE)
        case (raised e')
        then show ?thesis by simp
      next
        case (went_on u t)
        from went_on(2) have "res = error_result e (ctx t) (hist t)" by auto
        then show ?thesis by blast
      qed
      then show ?thesis by (auto simp add: error_result_def)
    next
      case (Inr res1)
      with tb te r2 have eq: "res1 = res" by (simp add: try_except_def)
      from out Inr eq have bo: "body_outcome orch ?cid s res s1" by simp
      then show ?thesis unfolding body_outcome_def
      proof (elim disjE exE conjE)
        fix t1 assume "pause_run t1 ?cid ''paused_after_phase1'' = (Inr res, s1)"
        from pause_run_result [OF this] show ?thesis by (simp add: create_paused_result_def)
      next
        fix t1 t3 assume "pause_run t3 ?cid ''paused_after_phase2'' = (Inr res, s1)"
        from pause_run_result [OF this] show ?thesis by (simp add: create_paused_result_def)
      next
        fix t1 t5
        assume g: "gather_final_result (mgr t5) (ctx t5) (hist t5) = Inr res"
          and a: "archive_completed_session t5 ?cid res = (Inr (), s1)"
        from archive_frame [OF a] obtain wa where "s1 = t5\<lparr> wld := wa \<rparr>" by blast
        with p1 have "dict_get (ctx t5) ''termination_reason'' \<noteq> PStr ''stalled''"
          by (simp add: no_stall_def)
        with g show ?thesis by (rule gather_not_stalled)
      qed
    qed
  qed
qed

theorem no_stalled_result_witness:
  "dict_get (bootstrap_context claim_plain None) ''termination_reason'' \<noteq> PStr ''stalled''
   \<and> \<not> isl (fst (process_claim orch0 world0 claim_plain None None))
   \<and> status (projr (fst (process_claim orch0 world0 claim_plain None None))) = ''unknown''
   \<and> termination_reason (projr (fst (process_claim orch0 world0 claim_plain None None)))
        \<noteq> PStr ''stalled''
   \<and> status (projr (fst (process_claim orch0 world0 claim_plain None None))) \<noteq> ''stalled''"
proof -
  have h: "dict_get (bootstrap_context claim_plain None) ''termination_reason'' \<noteq> PStr ''stalled''"
    by (simp add: bootstrap_context_def claim_plain_def py_defs)
  have "\<exists>res orch' w'. process_claim orch0 world0 claim_plain None None = (Inr res, orch', w')
          \<and> status res = ''unknown''"
    by (simp add: run_defs py_defs store_defs orch0_def world0_def claim_plain_def Let_def)
  then obtain res orch' w' where
    r: "process_claim orch0 world0 claim_plain None None = (Inr res, orch', w')"
    and u: "status res = ''unknown''" by blast
  from no_stalled_result [OF h, of orch0 world0 None] r
  have "termination_reason res \<noteq> PStr ''stalled'' \<and> status res \<noteq> ''stalled''" by blast
  with h r u show ?thesis by simp
qed

section \<open>The pause after Phase 1\<close>





section \<open>Resuming with evidence\<close>

lemma try_except_result:
  assumes st: "stable P" and p: "P s" and run: "try_except orch cid s = (Inr res, s')"
  shows "P s' \<and> r_context res = ctx s' \<and> r_chat_history res = hist s'"
proof (cases "try_body orch cid s")
  case (Pair r1 s1)
  from try_body_outcome [OF st p Pair]
  have p1: "P s1" and out: "\<forall>res. r1 = Inr res \<longrightarrow> body_outcome orch cid s res s1"
    by simp_all
  show ?thesis
  proof (cases r1)
    case (Inl e)
    with Pair run have
      "bind_step (save_session_snapshot s1 cid ''error'')
         (\<lambda>u s2. (Inr (error_result e (ctx s2) (hist s2)), s2)) = (Inr res, s')"
      by (simp add: try_except_def)
    then show ?thesis
    proof (cases rule: bind_stepE)
      case (raised e')
      then show ?thesis by simp
    next
      case (went_on u t)
      from went_on(2) have r: "res = error_result e (ctx s') (hist s')" and t: "t = s'" by auto
      from snapshot_frame [OF went_on(1)] t stable_wld [OF st p1] have "P s'" by auto
      with r show ?thesis by (simp add: error_result_def)
    qed
  next
    case (Inr res1)
    with Pair run have eq: "res1 = res" "s1 = s'" by (simp_all add: try_except_def)
    from out Inr eq have "body_outcome orch cid s res s'" by simp
    then have "r_context res = ctx s' \<and> r_chat_history res = hist s'"
      unfolding body_outcome_def
    proof (elim disjE exE conjE)
      fix t1 assume "pause_run t1 cid ''paused_after_phase1'' = (Inr res, s')"
      from pause_run_result [OF this] show ?thesis by (simp add: create_paused_result_def)
    next
      fix t1 t3 assume "pause_run t3 cid ''paused_after_phase2'' = (Inr res, s')"
      from pause_run_result [OF this] show ?thesis by (simp add: create_paused_result_def)
    next
      fix t1 t5
      assume g: "gather_final_result (mgr t5) (ctx t5) (hist t5) = Inr res"
        and a: "archive_completed_session t5 cid res = (Inr (), s')"
      from archive_frame [OF a] obtain wa where "s' = t5\<lparr> wld := wa \<rparr>" by blast
      moreover from g have "r_context res = ctx t5 \<and> r_chat_history res = hist t5"
        by (auto simp add: gather_final_result_def Let_def split: if_splits)
      ultimately show ?thesis by simp
    qed
    with p1 eq show ?thesis by simp
  qed
qed

lemma map_of_dict_update:
  "map_of (dict_update d e) = map_of d ++ map_of (rev e)"
  unfolding dict_update_def
proof (induction e arbitrary: d)
  case Nil
  show ?case by simp
next
  case (Cons kv e)
  obtain k v where kv: "kv = (k, v)" by (cases kv)
  have "map_of (foldl (\<lambda>acc (k, v). dict_set acc k v) (dict_set d k v) e)
          = map_of (dict_set d k v) ++ map_of (rev e)"
    by (rule Cons.IH)
  then show ?case
    by (simp add: kv map_of_dict_set map_add_def fun_eq_iff split: option.splits)
qed

lemma map_of_rev_distinct:
  "distinct (map fst xs) \<Longrightarrow> map_of (rev xs) = map_of xs"
proof (induction xs)
  case Nil
  show ?case by simp
next
  case (Cons kv xs)
  obtain k v where kv: "kv = (k, v)" by (cases kv)
  from Cons.prems kv have "map_of xs k = None"
    by (simp add: map_of_eq_None_iff)
  moreover from Cons have "map_of (rev xs) = map_of xs" by simp
  ultimately show ?case
    by (auto simp add: kv map_of_append map_add_def fun_eq_iff split: option.splits)
qed

lemma map_of_dict_update_distinct:
  "distinct (map fst e) \<Longrightarrow> map_of (dict_update d e) = map_of d ++ map_of e"
  by (simp add: map_of_dict_update map_of_rev_distinct)

lemma collect_types_typed:
  assumes "\<forall>i\<in>set items. dict_get i ''type'' = PNone \<or> (\<exists>t. dict_get i ''type'' = PStr t)"
  shows "\<exists>ts. collect_types items = Inr (map PStr ts)
            \<and> set ts = {t. t \<noteq> [] \<and> (\<exists>i\<in>set items. dict_get i ''type'' = PStr t)}"
  using assms
proof (induction items)
  case Nil
  show ?case by simp
next
  case (Cons item items)
  from Cons obtain ts where ih: "collect_types items = Inr (map PStr ts)"
    and st: "set ts = {t. t \<noteq> [] \<and> (\<exists>i\<in>set items. dict_get i ''type'' = PStr t)}"
    by auto
  from Cons.prems have "dict_get item ''type'' = PNone \<or> (\<exists>t. dict_get item ''type'' = PStr t)"
    by simp
  then show ?case
  proof
    assume n: "dict_get item ''type'' = PNone"
    with ih have "collect_types (item # items) = Inr (map PStr ts)" by (simp add: Let_def)
    moreover from n st have
      "set ts = {t. t \<noteq> [] \<and> (\<exists>i\<in>set (item # items). dict_get i ''type'' = PStr t)}"
      by auto
    ultimately show ?thesis by blast
  next
    assume "\<exists>t. dict_get item ''type'' = PStr t"
    then obtain t where t: "dict_get item ''type'' = PStr t" by blast
    show ?thesis
    proof (cases "t = []")
      case True
      with t ih have "collect_types (item # items) = Inr (map PStr ts)" by (simp add: Let_def)
      moreover from t True st have
        "set ts = {t. t \<noteq> [] \<and> (\<exists>i\<in>set (item # items). dict_get i ''type'' = PStr t)}"
        by auto
      ultimately show ?thesis by blast
    next
      case False
      with t ih have "collect_types (item # items) = Inr (map PStr (t # ts))"
        by (simp add: Let_def)
      moreover from t False st have
        "set (t # ts) = {t. t \<noteq> [] \<and> (\<exists>i\<in>set (item # items). dict_get i ''type'' = PStr t)}"
        by auto
      ultimately show ?thesis by blast
    qed
  qed
qed

lemma strs_of_strings: "strs_of (map PStr ts) = Inr ts"
  by (induction ts) simp_all

lemma filter_missing_labels:
  assumes "\<forall>d\<in>set docs. \<exists>x. d = PStr x"
  shows "filter_missing (map PStr ts) docs = Inr (filter (\<lambda>d. d \<notin> PStr ` set ts) docs)"
  using assms
proof (induction docs)
  case Nil
  show ?case by simp
next
  case (Cons d docs)
  from Cons.prems obtain x where x: "d = PStr x" by auto
  have "list_ex (py_eq (PStr x)) (map PStr ts) = (x \<in> set ts)"
    by (induction ts) auto
  with Cons x show ?case by (auto simp add: image_iff)
qed

lemma extend_key_list:
  assumes "\<forall>v. map_of c k = Some v \<longrightarrow> (\<exists>xs. v = PList xs)"
  shows "\<exists>v. extend_key c k items = Inr (dict_set c k v)"
proof (cases "map_of c k")
  case None
  then have "extend_key c k items = Inr (dict_set c k (PList items))"
    by (simp add: extend_key_def)
  then show ?thesis by blast
next
  case (Some v)
  with assms obtain xs where "v = PList xs" by auto
  with Some have "extend_key c k items = Inr (dict_set c k (PList (xs @ items)))"
    by (simp add: extend_key_def)
  then show ?thesis by blast
qed

lemma merge_evidence_resolves:
  assumes dk: "distinct (map fst c)"
    and md: "map_of c ''missing_documents'' = Some (PList docs)"
    and labels: "\<forall>d\<in>set docs. \<exists>x. d = PStr x"
    and item: "item \<in> set (ev_documents ev @ ev_notes ev)"
    and ty: "dict_get item ''type'' = PStr L" and ne: "L \<noteq> []"
    and typed: "\<forall>i\<in>set (ev_documents ev @ ev_notes ev).
                  dict_get i ''type'' = PNone \<or> (\<exists>t. dict_get i ''type'' = PStr t)"
    and l1: "\<forall>v. map_of c ''documents'' = Some v \<longrightarrow> (\<exists>xs. v = PList xs)"
    and l2: "\<forall>v. map_of c ''customer_notes'' = Some v \<longrightarrow> (\<exists>xs. v = PList xs)"
  shows "\<exists>c' kept names.
           merge_evidence w c h ev
             = Inr (c', h @ map (note_message w) (ev_notes ev)
                          @ [new_message SYSTEM
                               (''Customer has provided additional evidence for: ''
                                @ join '', '' names)])
         \<and> map_of c' ''missing_documents'' = Some (PList kept)
         \<and> PStr L \<notin> set kept \<and> set kept \<subseteq> set docs
         \<and> L \<in> set names
         \<and> distinct (map fst c')
         \<and> map_of c' ''claim_id'' = map_of c ''claim_id''"
proof -
  let ?D = "ev_documents ev" and ?N = "ev_notes ev"
  have "\<exists>c1. (if ?D \<noteq> [] then extend_key c ''documents'' (map PDict ?D) else Inr c) = Inr c1
          \<and> (c1 = c \<or> (\<exists>v. c1 = dict_set c ''documents'' v))"
    using extend_key_list [OF l1, of "map PDict ?D"] by auto
  then obtain c1 where e1: "(if ?D \<noteq> [] then extend_key c ''documents'' (map PDict ?D) else Inr c) = Inr c1"
    and c1: "c1 = c \<or> (\<exists>v. c1 = dict_set c ''documents'' v)" by blast
  from c1 have k1: "\<And>k. k \<noteq> ''documents'' \<Longrightarrow> map_of c1 k = map_of c k"
    by (auto simp add: map_of_dict_set)
  from c1 dk have d1: "distinct (map fst c1)" by (auto simp add: distinct_dict_set)
  from l2 k1 have l2': "\<forall>v. map_of c1 ''customer_notes'' = Some v \<longrightarrow> (\<exists>xs. v = PList xs)"
    by simp
  have "\<exists>c2. (if ?N \<noteq> [] then extend_key c1 ''customer_notes'' (map PDict ?N) else Inr c1) = Inr c2
          \<and> (c2 = c1 \<or> (\<exists>v. c2 = dict_set c1 ''customer_notes'' v))"
    using extend_key_list [OF l2', of "map PDict ?N"] by auto
  then obtain c2 where e2: "(if ?N \<noteq> [] then extend_key c1 ''customer_notes'' (map PDict ?N) else Inr c1) = Inr c2"
    and c2: "c2 = c1 \<or> (\<exists>v. c2 = dict_set c1 ''customer_notes'' v)" by blast
  from c2 k1 have k2: "\<And>k. k \<noteq> ''documents'' \<Longrightarrow> k \<noteq> ''customer_notes'' \<Longrightarrow> map_of c2 k = map_of c k"
    by (auto simp add: map_of_dict_set)
  from c2 d1 have d2: "distinct (map fst c2)" by (auto simp add: distinct_dict_set)
  from collect_types_typed [OF typed] obtain ts where
    ct: "collect_types (?D @ ?N) = Inr (map PStr ts)"
    and ts: "set ts = {t. t \<noteq> [] \<and> (\<exists>i\<in>set (?D @ ?N). dict_get i ''type'' = PStr t)}"
    by blast
  from ts item ty ne have Lts: "L \<in> set ts" by auto
  then have tne: "map PStr ts \<noteq> []" by auto
  from md k2 have md2: "dict_get_default c2 ''missing_documents'' (PList []) = PList docs"
    by (simp add: dict_get_default_def)
  let ?kept = "filter (\<lambda>d. d \<notin> PStr ` set ts) docs"
  let ?c' = "dict_set c2 ''missing_documents'' (PList ?kept)"
  let ?names = "sort (remdups ts)"
  have m: "merge_evidence w c h ev
             = Inr (?c', h @ map (note_message w) ?N
                          @ [new_message SYSTEM
                               (''Customer has provided additional evidence for: ''
                                @ join '', '' ?names)])"
    using e1 e2 ct tne md2 filter_missing_labels [OF labels, of ts]
    by (simp add: merge_evidence_def Let_def strs_of_strings)
  from Lts have Ln: "L \<in> set ?names" by simp
  have "map_of ?c' ''missing_documents'' = Some (PList ?kept)" by (simp add: map_of_dict_set)
  moreover from Lts have "PStr L \<notin> set ?kept" by auto
  moreover have "set ?kept \<subseteq> set docs" by auto
  moreover from d2 have "distinct (map fst ?c')" by (rule distinct_dict_set)
  moreover from k2 have "map_of ?c' ''claim_id'' = map_of c ''claim_id''"
    by (simp add: map_of_dict_set)
  ultimately show ?thesis using m Ln by blast
qed

lemma resolved_inv_stable: "stable (resolved_inv kept msg)"
  by (simp add: stable_def resolved_inv_def set_ctx_def add_message_def set_reason_def
      map_of_dict_set map_of_dict_setdefault_other)

lemma process_claim_keeps_resolution:
  assumes md: "map_of c' ''missing_documents'' = Some (PList kept)"
    and dc: "distinct (map fst c')"
    and cs: "\<forall>v. map_of c' ''claim_id'' = Some v \<longrightarrow> (\<exists>x. v = PStr x)"
    and dd: "distinct (map fst claim_data)"
    and cd: "map_of claim_data ''claim_id'' = Some (PStr cid)"
    and msg: "msg \<in> set h'"
  shows "\<exists>res orch' w'.
           process_claim orch w claim_data (Some h') (Some c') = (Inr res, orch', w')
         \<and> map_of (r_context res) ''missing_documents'' = Some (PList kept)
         \<and> msg \<in> set (r_chat_history res)"
proof -
  let ?ctx0 = "bootstrap_context claim_data (Some c')"
  from md have ne: "c' \<noteq> []" by auto
  have m0: "map_of ?ctx0 k = (case map_of c' k of Some v \<Rightarrow> Some v
              | None \<Rightarrow> (case map_of claim_data k of Some v \<Rightarrow> Some v
              | None \<Rightarrow> map_of
                  [(''state'', PStr ''intake''), (''missing_documents'', PList []),
                   (''risk_score'', PInt 0), (''fraud_indicators'', PList []),
                   (''assessment_confidence'', PInt 0), (''agent_decision'', PNone),
                   (''decision_confidence'', PInt 0), (''ack_sent'', PBool False),
                   (''info_request_sent'', PBool False), (''sla_breached'', PBool False),
                   (''agent_reviewed'', PBool False), (''handoff_status'', PStr ''pending''),
                   (''denial_package_ready'', PBool False)] k))" for k
    using ne dc dd
    by (simp add: bootstrap_context_def Let_def map_of_dict_update_distinct map_add_def
        split: option.splits)
  from m0 [of "''missing_documents''"] md
  have md0: "map_of ?ctx0 ''missing_documents'' = Some (PList kept)" by simp
  from m0 [of "''claim_id''"] cs cd
  obtain x where cid0: "map_of ?ctx0 ''claim_id'' = Some (PStr x)"
    by (cases "map_of c' ''claim_id''") auto
  let ?ctx1 = "dict_set ?ctx0 ''debug_log_path'' (PStr (trace_path orch (PStr x)))"
  from cid0 have init: "initialize_debug_log orch ?ctx0 = Inr ?ctx1"
    by (simp add: initialize_debug_log_def)
  from md0 have md1: "map_of ?ctx1 ''missing_documents'' = Some (PList kept)"
    by (simp add: map_of_dict_set)
  from cid0 have cid1: "dict_get_default ?ctx1 ''claim_id'' (PStr ''UNKNOWN'') = PStr x"
    by (simp add: dict_get_default_def map_of_dict_set)
  let ?h1 = "(if filter truthy kept \<noteq> []
             then h' @ [new_message SYSTEM (system_note w (filter truthy kept))] else h')"
  let ?s = "\<lparr> ctx = ?ctx1, hist = ?h1, mgr = reset (o_manager orch), wld = w \<rparr>"
  from init md1 have prep: "prepare_run orch w claim_data (Some h') (Some c') = Inr ?s"
    by (simp add: prepare_run_def Let_def dict_get_default_def)
  from md1 msg have inv: "resolved_inv kept msg ?s" by (simp add: resolved_inv_def)
  from try_except_str [of orch x ?s] obtain res s' where
    te: "try_except orch (PStr x) ?s = (Inr res, s')" by blast
  from try_except_result [OF resolved_inv_stable inv te]
  have "resolved_inv kept msg s'" "r_context res = ctx s'" "r_chat_history res = hist s'"
    by simp_all
  then have "map_of (r_context res) ''missing_documents'' = Some (PList kept)"
    "msg \<in> set (r_chat_history res)" by (simp_all add: resolved_inv_def)
  moreover from prep cid1 te have
    "process_claim orch w claim_data (Some h') (Some c')
       = (Inr res, orch\<lparr> o_manager := mgr s' \<rparr>, wld s')"
    by (simp add: process_claim_def Let_def)
  ultimately show ?thesis by blast
qed

lemma load_session_exists:
  "load_session w cid = Inr (Some sd) \<Longrightarrow> session_exists w cid"
  by (auto simp add: load_session_def session_exists_def Let_def split: option.splits sum.splits)

text \<open>
  C7. Take a stored session whose context (a dictionary with distinct keys; its claim id,
  if present, a string; its \<open>documents\<close> and \<open>customer_notes\<close>, if present, lists) has a
  \<open>missing_documents\<close> list of string labels containing \<open>L\<close>, and evidence whose items have a
  string \<open>type\<close> or none, one of them the non-empty type \<open>L\<close>. Then \<open>continue_claim\<close>
  returns a result whose context has a \<open>missing_documents\<close> list without \<open>L\<close> (and with
  nothing that was not missing before); the merge appends to the loaded transcript, after
  the note messages, a system message that lists the provided types, \<open>L\<close> among them, and
  that message is in the transcript of the result.
\<close>

theorem continue_claim_resolves:
  assumes ld: "load_session w cid = Inr (Some sd)"
    and dk: "distinct (map fst (l_context sd))"
    and cs: "\<forall>v. map_of (l_context sd) ''claim_id'' = Some v \<longrightarrow> (\<exists>x. v = PStr x)"
    and md: "map_of (l_context sd) ''missing_documents'' = Some (PList docs)"
    and Ld: "PStr L \<in> set docs"
    and labels: "\<forall>d\<in>set docs. \<exists>x. d = PStr x"
    and item: "item \<in> set (ev_documents ev @ ev_notes ev)"
    and ty: "dict_get item ''type'' = PStr L" and ne: "L \<noteq> []"
    and typed: "\<forall>i\<in>set (ev_documents ev @ ev_notes ev).
                  dict_get i ''type'' = PNone \<or> (\<exists>t. dict_get i ''type'' = PStr t)"
    and l1: "\<forall>v. map_of (l_context sd) ''documents'' = Some v \<longrightarrow> (\<exists>xs. v = PList xs)"
    and l2: "\<forall>v. map_of (l_context sd) ''customer_notes'' = Some v \<longrightarrow> (\<exists>xs. v = PList xs)"
  shows "\<exists>res orch' w' c' kept names.
           continue_claim orch w cid (Some ev) = (Inr res, orch', w')
         \<and> map_of (r_context res) ''missing_documents'' = Some (PList kept)
         \<and> PStr L \<notin> set kept \<and> set kept \<subseteq> set docs
         \<and> merge_evidence w (l_context sd) (l_chat_history sd) ev
             = Inr (c', l_chat_history sd @ map (note_message w) (ev_notes ev)
                          @ [new_message SYSTEM
                               (''Customer has provided additional evidence for: ''
                                @ join '', '' names)])
         \<and> L \<in> set names
         \<and> new_message SYSTEM
              (''Customer has provided additional evidence for: '' @ join '', '' names)
             \<in> set (r_chat_history res)"
proof -
  let ?c = "l_context sd" and ?h = "l_chat_history sd"
  from merge_evidence_resolves [OF dk md labels item ty ne typed l1 l2, of w ?h]
  obtain c' kept names where
    m: "merge_evidence w ?c ?h ev
          = Inr (c', ?h @ map (note_message w) (ev_notes ev)
                       @ [new_message SYSTEM
                            (''Customer has provided additional evidence for: ''
                             @ join '', '' names)])"
    and k: "map_of c' ''missing_documents'' = Some (PList kept)"
           "PStr L \<notin> set kept" "set kept \<subseteq> set docs"
    and n: "L \<in> set names"
    and dc: "distinct (map fst c')"
    and ci: "map_of c' ''claim_id'' = map_of ?c ''claim_id''"
    by blast
  let ?msg = "new_message SYSTEM
                (''Customer has provided additional evidence for: '' @ join '', '' names)"
  let ?h' = "?h @ map (note_message w) (ev_notes ev) @ [?msg]"
  let ?cd = "[(''claim_id'', PStr cid),
              (''policy_number'', dict_get c' ''policy_number''),
              (''claimant_name'', dict_get c' ''claimant_name''),
              (''incident_date'', dict_get c' ''incident_date''),
              (''documents'', dict_get_default c' ''documents'' (PList []))]"
  from cs ci have cs': "\<forall>v. map_of c' ''claim_id'' = Some v \<longrightarrow> (\<exists>x. v = PStr x)" by simp
  have dd: "distinct (map fst ?cd)" by simp
  have cd: "map_of ?cd ''claim_id'' = Some (PStr cid)" by simp
  have mh: "?msg \<in> set ?h'" by simp
  from process_claim_keeps_resolution [OF k(1) dc cs' dd cd mh, of orch w]
  obtain res orch' w' where
    pc: "process_claim orch w ?cd (Some ?h') (Some c') = (Inr res, orch', w')"
    and r: "map_of (r_context res) ''missing_documents'' = Some (PList kept)"
           "?msg \<in> set (r_chat_history res)"
    by blast
  from load_session_exists [OF ld] ld m pc have
    "continue_claim orch w cid (Some ev) = (Inr res, orch', w')"
    by (simp add: continue_claim_def Let_def)
  with r k m n show ?thesis by blast
qed

theorem continue_claim_resolves_witness:
  "load_session world_paused ''CLM-1'' = Inr (Some paused_loaded)
   \<and> map_of (l_context paused_loaded) ''missing_documents'' = Some (PList [PStr ''police_report''])
   \<and> dict_get (hd (ev_documents police_report_evidence)) ''type'' = PStr ''police_report''
   \<and> (\<exists>res orch' w'.
          continue_claim orch0 world_paused ''CLM-1'' (Some police_report_evidence)
            = (Inr res, orch', w')
        \<and> map_of (r_context res) ''missing_documents'' = Some (PList [])
        \<and> new_message SYSTEM ''Customer has provided additional evidence for: police_report''
            \<in> set (r_chat_history res))"
proof -
  let ?item = "[(''type'', PStr ''police_report''), (''filename'', PStr ''report.pdf'')]"
  have ld: "load_session world_paused ''CLM-1'' = Inr (Some paused_loaded)"
    by (simp add: load_session_def world_paused_def world0_def paused_files_def
        paused_loaded_def)
  have dk: "distinct (map fst (l_context paused_loaded))"
    by (simp add: paused_loaded_def paused_context_def)
  have cs: "\<forall>v. map_of (l_context paused_loaded) ''claim_id'' = Some v \<longrightarrow> (\<exists>x. v = PStr x)"
    by (simp add: paused_loaded_def paused_context_def)
  have md: "map_of (l_context paused_loaded) ''missing_documents''
              = Some (PList [PStr ''police_report''])"
    by (simp add: paused_loaded_def paused_context_def)
  have Ld: "PStr ''police_report'' \<in> set [PStr ''police_report'']" by simp
  have labels: "\<forall>d\<in>set [PStr ''police_report'']. \<exists>x. d = PStr x" by simp
  have item: "?item \<in> set (ev_documents police_report_evidence @ ev_notes police_report_evidence)"
    by (simp add: police_report_evidence_def)
  have ty: "dict_get ?item ''type'' = PStr ''police_report''" by (simp add: dict_get_def)
  have ne: "''police_report'' \<noteq> []" by simp
  have typed: "\<forall>i\<in>set (ev_documents police_report_evidence @ ev_notes police_report_evidence).
                  dict_get i ''type'' = PNone \<or> (\<exists>t. dict_get i ''type'' = PStr t)"
    by (simp add: police_report_evidence_def dict_get_def)
  have l1: "\<forall>v. map_of (l_context paused_loaded) ''documents'' = Some v \<longrightarrow> (\<exists>xs. v = PList xs)"
    by (simp add: paused_loaded_def paused_context_def)
  have l2: "\<forall>v. map_of (l_context paused_loaded) ''customer_notes'' = Some v
                \<longrightarrow> (\<exists>xs. v = PList xs)"
    by (simp add: paused_loaded_def paused_context_def)
  have hd: "dict_get (hd (ev_documents police_report_evidence)) ''type'' = PStr ''police_report''"
    by (simp add: police_report_evidence_def dict_get_def)
  have me: "snd (projr (merge_evidence world_paused (l_context paused_loaded)
                    (l_chat_history paused_loaded) police_report_evidence))
            = [new_message SYSTEM ''Customer has provided additional evidence for: police_report'']"
    by (simp add: merge_evidence_def extend_key_def police_report_evidence_def paused_loaded_def
        paused_context_def dict_get_def dict_get_default_def Let_def)
  from continue_claim_resolves [OF ld dk cs md Ld labels item ty ne typed l1 l2, of orch0]
  obtain res orch' w' c' kept names where
    cc: "continue_claim orch0 world_paused ''CLM-1'' (Some police_report_evidence)
           = (Inr res, orch', w')"
    and k: "map_of (r_context res) ''missing_documents'' = Some (PList kept)"
           "PStr ''police_report'' \<notin> set kept" "set kept \<subseteq> set [PStr ''police_report'']"
    and m: "merge_evidence world_paused (l_context paused_loaded) (l_chat_history paused_loaded)
              police_report_evidence
             = Inr (c', l_chat_history paused_loaded
                          @ map (note_message world_paused) (ev_notes police_report_evidence)
                          @ [new_message SYSTEM
                               (''Customer has provided additional evidence for: ''
                                @ join '', '' names)])"
    and r: "new_message SYSTEM
              (''Customer has provided additional evidence for: '' @ join '', '' names)
             \<in> set (r_chat_history res)"
    by blast
  from k(2,3) have kept: "kept = []" by (cases kept) auto
  from m me have
    "new_message SYSTEM (''Customer has provided additional evidence for: '' @ join '', '' names)
       = new_message SYSTEM ''Customer has provided additional evidence for: police_report''"
    by (simp add: paused_loaded_def police_report_evidence_def)
  with r have "new_message SYSTEM ''Customer has provided additional evidence for: police_report''
                 \<in> set (r_chat_history res)" by simp
  with cc k(1) kept ld md hd show ?thesis by blast
qed

end
